theory Spec2Isabelle
  imports Main "HOL-Library.Word"
begin

section \<open>Hare 3 session scheduler and gossip handler (hare3/hare.go)\<close>

text \<open>
  Identifiers are fixed-size byte arrays in the source (32 bytes each); they are
  compared for equality only, so each is one 256-bit word.  A layer id and an epoch id
  are \<open>uint32\<close>.  A \<open>time.Duration\<close> is a signed 64-bit count of nanoseconds;
  an instant on the node clock is an unbounded count of nanoseconds.
\<close>

type_synonym LayerID = "32 word"
type_synonym EpochID = "32 word"
type_synonym Duration = "64 word"
type_synonym Instant = int
type_synonym NodeID = "256 word"
type_synonym ATXID = "256 word"
type_synonym ProposalID = "256 word"
type_synonym Beacon = "256 word"

definition EmptyBeacon :: Beacon where
  "EmptyBeacon = 0"

definition Second :: Duration where
  "Second = 1000000000"

subsection \<open>Configuration\<close>

record CommitteeUpgrade =
  Layer :: LayerID
  Size :: "16 word"

record Config =
  Enable :: bool
  EnableLayer :: LayerID
  DisableLayer :: LayerID
  Committee :: "16 word"
  Upgrade :: "CommitteeUpgrade option"
  Leaders :: "16 word"
  IterationsLimit :: "8 word"
  PreroundDelay :: Duration
  RoundDuration :: Duration
  LogStats :: bool
  ProtocolName :: string

text \<open>The field \<open>Upgrade\<close> is the pointer \<open>Config.CommitteeUpgrade\<close>; \<open>None\<close> is nil.\<close>

definition CommitteeFor :: "Config \<Rightarrow> LayerID \<Rightarrow> 16 word" where
  "CommitteeFor cfg layer =
     (case Upgrade cfg of
        Some u \<Rightarrow> if Layer u \<le> layer then Size u else Committee cfg
      | None \<Rightarrow> Committee cfg)"

record IterRound =
  Iter :: "8 word"
  Round :: "8 word"

text \<open>
  The round constants and \<open>IterRound.Absolute\<close> are declared outside the files at
  hand.  \<open>roundStart\<close> tests the preround as \<open>Round == 0\<close>, which fixes
  \<open>preround\<close>.
\<close>

definition preround :: "8 word" where
  "preround = 0"

text \<open>
  Modelled from the spec: the constant \<open>hardlock\<close> is not among the source files.  The
  validation contract puts the terminating round \<open>(iterations_limit, hardlock)\<close> at
  \<open>preround_delay + (iterations_limit * rounds_per_iter) * round_duration\<close> while a round
  starts at \<open>preround_delay + (absolute - 1) * round_duration\<close>; so the round index of
  hardlock is 1.
\<close>

definition hardlock :: "8 word" where
  "hardlock = 1"

text \<open>
  Modelled from the spec: \<open>IterRound.Absolute\<close> is not among the source files;
  \<open>absolute = iter * rounds_per_iter + round_index\<close>.  The number of rounds of an
  iteration is a parameter \<open>rpi\<close>; like a round index it is one byte, so that the
  value stays below \<open>2^17\<close> and never wraps whatever unsigned type carries it.
\<close>

definition Absolute :: "8 word \<Rightarrow> IterRound \<Rightarrow> nat" where
  "Absolute rpi ir = unat (Iter ir) * unat rpi + unat (Round ir)"

text \<open>\<open>roundStart\<close>: expected time of a round relative to the start of the layer.\<close>

definition roundStart :: "8 word \<Rightarrow> Config \<Rightarrow> IterRound \<Rightarrow> Duration" where
  "roundStart rpi cfg ir =
     (if Round ir = 0 then PreroundDelay cfg
      else PreroundDelay cfg + of_nat (Absolute rpi ir - 1) * RoundDuration cfg)"

datatype config_error =
    TerminatesLater Duration Duration
  | DisabledNotLarger LayerID LayerID

definition Validate :: "8 word \<Rightarrow> Config \<Rightarrow> Duration \<Rightarrow> config_error option" where
  "Validate rpi cfg zdist =
     (let terminates = roundStart rpi cfg \<lparr>Iter = IterationsLimit cfg, Round = hardlock\<rparr>
      in if zdist <s terminates then Some (TerminatesLater terminates zdist)
         else if Enable cfg \<and> DisableLayer cfg \<le> EnableLayer cfg
           then Some (DisabledNotLarger (DisableLayer cfg) (EnableLayer cfg))
         else None)"

definition DefaultConfig :: Config where
  "DefaultConfig =
     \<lparr>Enable = False, EnableLayer = 0, DisableLayer = 4294967295, Committee = 800,
      Upgrade = None, Leaders = 5, IterationsLimit = 4,
      PreroundDelay = 25 * Second, RoundDuration = 12 * Second,
      LogStats = False, ProtocolName = ''/h/3.0''\<rparr>"

text \<open>
  The instant a message of round \<open>ir\<close> is expected at (\<open>Handler\<close>, before the
  latency report): \<open>LayerToTime(layer).Add(roundStart(ir))\<close>.
\<close>

definition expected_arrival :: "8 word \<Rightarrow> Config \<Rightarrow> Instant \<Rightarrow> IterRound \<Rightarrow> Instant" where
  "expected_arrival rpi cfg layer_start ir = layer_start + sint (roundStart rpi cfg ir)"

subsection \<open>Sessions and the registry\<close>

text \<open>
  Modelled from the spec: \<open>newProtocol\<close> and the protocol state machine are not among
  the source files.  The protocol state holds the \<open>threshold\<close> it was created with;
  what else it holds is not needed here.
\<close>

record protocol =
  threshold :: "16 word"

definition newProtocol :: "16 word \<Rightarrow> protocol" where
  "newProtocol t = \<lparr>threshold = t\<rparr>"

record HareEligibility =
  Proof :: "640 word"
  Count :: "16 word"

record session =
  proto :: protocol
  lid :: LayerID
  beacon :: Beacon
  signers :: "NodeID list"
  vrfs :: "HareEligibility option list"

text \<open>
  The state of \<open>Hare\<close>: the registry \<open>sessions\<close>, the registered signers (the values of
  the map \<open>signers\<close>, in the order \<open>maps.Values\<close> lists them) and the configuration;
  and what has been done to its collaborators: the layers given to the proposal
  store's \<open>OnLayer\<close>, the layers given to the patrol's \<open>SetHareInCharge\<close> and
  \<open>CompleteHare\<close>, and the tasks started on the error group \<open>eg\<close>, each running
  \<open>run\<close> on its session.
\<close>

record Hare =
  sessions :: "LayerID \<rightharpoonup> protocol"
  registered :: "NodeID list"
  config :: Config
  proposals_OnLayer :: "LayerID list"
  patrol_SetHareInCharge :: "LayerID list"
  patrol_CompleteHare :: "LayerID list"
  eg :: "session list"

text \<open>
  \<open>onLayer\<close>.  \<open>LayerID.GetEpoch\<close> is not among the source files and is a parameter;
  \<open>synced\<close> is the answer of \<open>sync.IsSynced\<close>; \<open>beacons_Get\<close> is the beacon table of
  the database, \<open>None\<close> where the lookup returns an error.
\<close>

definition onLayer :: "(LayerID \<Rightarrow> EpochID) \<Rightarrow> bool \<Rightarrow> (EpochID \<rightharpoonup> Beacon) \<Rightarrow> Hare \<Rightarrow> LayerID \<Rightarrow> Hare" where
  "onLayer GetEpoch synced beacons_Get h layer =
     (let h1 = h\<lparr>proposals_OnLayer := proposals_OnLayer h @ [layer]\<rparr>
      in if \<not> synced then h1
         else case beacons_Get (GetEpoch layer) of
             None \<Rightarrow> h1
           | Some b \<Rightarrow>
               if b = EmptyBeacon then h1
               else
                 let h2 = h1\<lparr>patrol_SetHareInCharge := patrol_SetHareInCharge h1 @ [layer]\<rparr>;
                     s = \<lparr>proto = newProtocol (CommitteeFor (config h2) layer div 2 + 1),
                          lid = layer, beacon = b, signers = registered h2,
                          vrfs = replicate (length (registered h2)) None\<rparr>
                 in h2\<lparr>sessions := (sessions h2)(layer \<mapsto> proto s), eg := eg h2 @ [s]\<rparr>)"

subsection \<open>Start\<close>

definition Start_enabled :: "Config \<Rightarrow> LayerID \<Rightarrow> LayerID \<Rightarrow> LayerID" where
  "Start_enabled cfg CurrentLayer EffectiveGenesis =
     max (CurrentLayer + 1) (max (EnableLayer cfg) (EffectiveGenesis + 1))"

definition Start_disabled :: "Config \<Rightarrow> LayerID" where
  "Start_disabled cfg = (if 0 < DisableLayer cfg then DisableLayer cfg else 4294967295)"

text \<open>
  The loop of the task \<open>Start\<close> launches; the result lists the layers \<open>onLayer\<close> is
  called with, in order.  \<open>ctx_done next\<close> says that the \<open>select\<close> waiting for layer
  \<open>next\<close> took the branch of the cancelled context, which ends the task.
\<close>

function Start_loop :: "(LayerID \<Rightarrow> bool) \<Rightarrow> LayerID \<Rightarrow> LayerID \<Rightarrow> LayerID list" where
  "Start_loop ctx_done next disabled =
     (if next < disabled
      then if ctx_done next then [] else next # Start_loop ctx_done (next + 1) disabled
      else [])"
  by pat_completeness auto
termination
proof (relation "measure (\<lambda>(ctx_done, next, disabled). unat disabled - unat next)")
  show "wf (measure (\<lambda>(ctx_done, next, disabled). unat disabled - unat next))"
    by simp
next
  fix ctx_done :: "LayerID \<Rightarrow> bool" and "next" disabled :: LayerID
  assume lt: "next < disabled"
  then have "unat next < unat disabled"
    by (simp add: word_less_nat_alt)
  moreover have "unat disabled < 2 ^ 32"
    using unsigned_less [of disabled] by simp
  ultimately have "unat (next + 1) = unat next + 1"
    by (simp add: unat_word_ariths)
  with \<open>unat next < unat disabled\<close>
  show "((ctx_done, next + 1, disabled), (ctx_done, next, disabled))
      \<in> measure (\<lambda>(ctx_done, next, disabled). unat disabled - unat next)"
    by simp
qed

definition Start_layers :: "Config \<Rightarrow> LayerID \<Rightarrow> LayerID \<Rightarrow> (LayerID \<Rightarrow> bool) \<Rightarrow> LayerID list" where
  "Start_layers cfg CurrentLayer EffectiveGenesis ctx_done =
     Start_loop ctx_done (Start_enabled cfg CurrentLayer EffectiveGenesis) (Start_disabled cfg)"

subsection \<open>The gossip handler\<close>

text \<open>
  Modelled from the spec: the message type is not among the source files.  The wire
  format lists its fields: layer, iteration and round, sender, eligibility, value set,
  signature.
\<close>

record Message =
  m_Layer :: LayerID
  m_IterRound :: IterRound
  Value :: "ProposalID list"
  Eligibility :: HareEligibility
  Sender :: NodeID
  Signature :: "512 word"

text \<open>Modelled from the spec: a grade is one of \<open>g0\<close> to \<open>g3\<close>; \<open>grade0\<close> messages are
  dropped.\<close>

datatype grade = grade0 | grade1 | grade2 | grade3

text \<open>The input handed to the state machine, as \<open>Handler\<close> builds it.\<close>

record input =
  msg :: Message
  msgHash :: "256 word"
  malicious :: bool
  atxgrade :: grade

text \<open>An equivocation proof pairs two messages; the handler reads the smesher of the
  first.\<close>

record HareProofMsg =
  hp_SmesherID :: NodeID
  hp_Signature :: "512 word"

record HareProof =
  Messages0 :: HareProofMsg
  Messages1 :: HareProofMsg

text \<open>
  The collaborators of \<open>Handler\<close>, none of them among the source files, are parameters:
  the codec, the syntactic check \<open>Message.Validate\<close> (true when it returns no error),
  the signature verifier, the oracle's grading, the state machine's \<open>OnInput\<close> on the
  session found, whether \<open>identities.SetMalicious\<close> succeeds, the node clock and the
  wall clock's reading at the latency report.
\<close>

record handler_deps =
  Decode :: "8 word list \<Rightarrow> Message option"
  MsgValidate :: "Message \<Rightarrow> bool"
  Verify :: "Message \<Rightarrow> bool"
  ToHash :: "Message \<Rightarrow> 256 word"
  oracle_validate :: "Message \<Rightarrow> grade"
  OnInput :: "protocol \<Rightarrow> input \<Rightarrow> bool \<times> HareProof option"
  SetMalicious_ok :: "NodeID \<Rightarrow> HareProof \<Rightarrow> bool"
  LayerToTime :: "LayerID \<Rightarrow> Instant"
  Now :: Instant

text \<open>
  What the handler reads and writes outside \<open>Hare\<close>: the identities flagged malicious
  in the ATX data, and the proofs saved in the identity table of the database.
\<close>

record stores =
  atx_malicious :: "NodeID list"
  identities :: "(NodeID \<times> HareProof) list"

text \<open>The calls \<open>Handler\<close> makes, in the order it makes them (metric counters and
  debug logging left out).\<close>

datatype hevent =
    CallDecode
  | CallValidate
  | CallLookup LayerID
  | CallVerify
  | CallIsMalicious NodeID
  | CallOracleValidate
  | CallOnInput
  | CallDbSetMalicious NodeID HareProof
  | LogSaveFailed
  | CallAtxSetMalicious NodeID
  | ReportMessageLatency int

text \<open>\<open>ValidationReject\<close> is an error that wraps \<open>pubsub.ErrValidationReject\<close>; the
  other errors do not wrap it.\<close>

datatype handler_error =
    ValidationReject string
  | NotRegistered LayerID
  | ZeroGrade
  | DroppedByGossip

fun wraps_ErrValidationReject :: "handler_error option \<Rightarrow> bool" where
  "wraps_ErrValidationReject (Some (ValidationReject s)) = True"
| "wraps_ErrValidationReject e = False"

text \<open>The branch of \<open>Handler\<close> that records an equivocation.\<close>

definition register_equivocation ::
    "handler_deps \<Rightarrow> stores \<Rightarrow> HareProof \<Rightarrow> stores \<times> hevent list" where
  "register_equivocation d w equivocation =
     (let id = hp_SmesherID (Messages0 equivocation);
          saved = SetMalicious_ok d id equivocation
      in (w\<lparr>identities := (if saved then identities w @ [(id, equivocation)] else identities w),
            atx_malicious := atx_malicious w @ [id]\<rparr>,
          [CallDbSetMalicious id equivocation] @ (if saved then [] else [LogSaveFailed])
            @ [CallAtxSetMalicious id]))"

definition Handler ::
    "8 word \<Rightarrow> handler_deps \<Rightarrow> Hare \<Rightarrow> stores \<Rightarrow> 8 word list
      \<Rightarrow> handler_error option \<times> stores \<times> hevent list" where
  "Handler rpi d h w buf =
     (case Decode d buf of
        None \<Rightarrow> (Some (ValidationReject ''decoding error''), w, [CallDecode])
      | Some m \<Rightarrow>
          if \<not> MsgValidate d m
          then (Some (ValidationReject ''validation''), w, [CallDecode, CallValidate])
          else
            case sessions h (m_Layer m) of
              None \<Rightarrow> (Some (NotRegistered (m_Layer m)), w,
                        [CallDecode, CallValidate, CallLookup (m_Layer m)])
            | Some session \<Rightarrow>
                if \<not> Verify d m
                then (Some (ValidationReject ''invalid signature''), w,
                      [CallDecode, CallValidate, CallLookup (m_Layer m), CallVerify])
                else
                  let mal = Sender m \<in> set (atx_malicious w);
                      g = oracle_validate d m;
                      calls = [CallDecode, CallValidate, CallLookup (m_Layer m), CallVerify,
                               CallIsMalicious (Sender m), CallOracleValidate]
                  in if g = grade0 then (Some ZeroGrade, w, calls)
                     else
                       let inp = \<lparr>msg = m, msgHash = ToHash d m, malicious = mal, atxgrade = g\<rparr>;
                           (gossip, equivocation) = OnInput d session inp;
                           (w', evs) =
                             (case equivocation of
                                Some e \<Rightarrow> if \<not> mal then register_equivocation d w e else (w, [])
                              | None \<Rightarrow> (w, []))
                       in if \<not> gossip
                          then (Some DroppedByGossip, w', calls @ [CallOnInput] @ evs)
                          else (None, w',
                                calls @ [CallOnInput] @ evs
                                  @ [ReportMessageLatency
                                       (Now d - expected_arrival rpi (config h)
                                                  (LayerToTime d (m_Layer m)) (m_IterRound m))]))"

text \<open>The five steps of the handler: decoding, the syntactic check, the lookup of the
  session, the verification of the signature, and grading; and their rank.\<close>

fun step_rank :: "hevent \<Rightarrow> nat option" where
  "step_rank CallDecode = Some 0"
| "step_rank CallValidate = Some 1"
| "step_rank (CallLookup l) = Some 2"
| "step_rank CallVerify = Some 3"
| "step_rank CallOracleValidate = Some 4"
| "step_rank e = None"

fun is_persist :: "hevent \<Rightarrow> bool" where
  "is_persist (CallDbSetMalicious n p) = True"
| "is_persist e = False"

subsection \<open>The initial proposal set\<close>

text \<open>
  What \<open>selectProposals\<close> reads of an ATX in the ATX data and of a proposal in the
  proposal store: \<open>p_malicious\<close> is the answer of \<open>p.IsMalicious()\<close>, \<open>p_Beacon\<close> that of
  \<open>p.Beacon()\<close>.
\<close>

record ATX =
  BaseHeight :: "64 word"
  Height :: "64 word"

record Proposal =
  ID :: ProposalID
  AtxID :: ATXID
  SmesherID :: NodeID
  p_malicious :: bool
  p_Beacon :: Beacon

text \<open>A database lookup returns \<open>sql.ErrNotFound\<close>, another error, or the row.\<close>

datatype 'a sql_result = ErrNotFound | ErrOther | Row 'a

record select_deps =
  GetIDByEpochAndNodeID :: "EpochID \<Rightarrow> NodeID \<Rightarrow> ATXID sql_result"
  atxsdata_Get :: "EpochID \<Rightarrow> ATXID \<Rightarrow> ATX option"
  IsMalicious :: "NodeID \<Rightarrow> bool"
  GetForLayer :: "LayerID \<Rightarrow> Proposal list"

text \<open>
  The first loop, over the session's signers: the pointer \<open>min\<close> (\<open>None\<close> is nil)
  after the loop, or \<open>None\<close> when a lookup fails with an error other than "not found"
  and \<open>selectProposals\<close> returns early.
\<close>

fun min_own_atx ::
    "select_deps \<Rightarrow> EpochID \<Rightarrow> EpochID \<Rightarrow> NodeID list \<Rightarrow> ATX option \<Rightarrow> ATX option option" where
  "min_own_atx d target publish [] minp = Some minp"
| "min_own_atx d target publish (signer # rest) minp =
     (case GetIDByEpochAndNodeID d publish signer of
        ErrNotFound \<Rightarrow> min_own_atx d target publish rest minp
      | ErrOther \<Rightarrow> None
      | Row atxid \<Rightarrow>
          let own = atxsdata_Get d target atxid
          in min_own_atx d target publish rest
               (case minp of
                  None \<Rightarrow> own
                | Some mn \<Rightarrow>
                    (case own of
                       None \<Rightarrow> minp
                     | Some ow \<Rightarrow> if Height ow < Height mn then own else minp)))"

text \<open>The map \<open>atxs\<close>: how many candidates carry each ATX id (a missing key reads 0).\<close>

definition count_atxs :: "Proposal list \<Rightarrow> ATXID \<Rightarrow> nat" where
  "count_atxs candidates =
     fold (\<lambda>p atxs. atxs(AtxID p := atxs (AtxID p) + 1)) candidates (\<lambda>a. 0)"

text \<open>The second loop, over the candidates, with the result so far.\<close>

fun vote_candidates ::
    "select_deps \<Rightarrow> EpochID \<Rightarrow> Beacon \<Rightarrow> ATX \<Rightarrow> (ATXID \<Rightarrow> nat) \<Rightarrow> Proposal list
      \<Rightarrow> ProposalID list \<Rightarrow> ProposalID list" where
  "vote_candidates d target b minp atxs [] result = result"
| "vote_candidates d target b minp atxs (p # ps) result =
     (if IsMalicious d (SmesherID p) \<or> p_malicious p
      then vote_candidates d target b minp atxs ps result
      else if 1 < atxs (AtxID p)
      then vote_candidates d target b minp atxs ps result
      else
        case atxsdata_Get d target (AtxID p) of
          None \<Rightarrow> []
        | Some header \<Rightarrow>
            if Height minp \<le> BaseHeight header
            then vote_candidates d target b minp atxs ps result
            else if p_Beacon p = b
            then vote_candidates d target b minp atxs ps (result @ [ID p])
            else vote_candidates d target b minp atxs ps result)"

definition selectProposals :: "(LayerID \<Rightarrow> EpochID) \<Rightarrow> select_deps \<Rightarrow> session \<Rightarrow> ProposalID list" where
  "selectProposals GetEpoch d s =
     (let target = GetEpoch (lid s);
          publish = target - 1
      in case min_own_atx d target publish (signers s) None of
           None \<Rightarrow> []
         | Some None \<Rightarrow> []
         | Some (Some minp) \<Rightarrow>
             let candidates = GetForLayer d (lid s)
             in vote_candidates d target (beacon s) minp (count_atxs candidates) candidates [])"

subsection \<open>Round outputs and the session's scheduler loop\<close>

text \<open>
  Modelled from the spec: the type \<open>output\<close> of the state machine's \<open>Next\<close> is not among
  the source files; it carries an optional message, an optional coin, an optional result
  and the flag \<open>terminated\<close>, the four fields \<open>run\<close> and \<open>onOutput\<close> read.
\<close>

record "output" =
  message :: "Message option"
  coin :: "bool option"
  result :: "ProposalID list option"
  terminated :: bool

text \<open>
  A \<open>select\<close> between the cancelled context and another case (a timer, a channel send)
  takes the other case (\<open>Ready\<close>), takes \<open>ctx.Done\<close>, which needs the context to be
  cancelled (\<open>CtxDone\<close>), or waits for ever (\<open>Never\<close>).  Which one is for the
  environment to say.
\<close>

datatype selected = Ready | CtxDone | Never

datatype place = AtPreround | AtRound | AtCoin | AtResult

datatype run_error = CtxCanceled | TerminatedWithoutResult | IterationsLimitReached

text \<open>A call returns a value, never returns, panics, or is still in its loop when the
  rounds at hand are used up.\<close>

datatype 'a outcome = Returns 'a | Blocked | Panics | Unfinished

text \<open>What the scheduler does that others can see, in order.\<close>

datatype event =
    Published nat Message
  | LogPublishFailed nat
  | OnMessageSent "Message option"
  | CoinSent LayerID bool
  | ResultSent LayerID "ProposalID list"
  | TookCtxDone place
  | CalledOnInitial "ProposalID list"
  | CalledNextPreround "output"
  | CalledNext IterRound "output"

text \<open>
  The environment of one call of \<open>onOutput\<close>: the signature a signer puts on a message,
  whether the \<open>Publish\<close> of the signer at index \<open>i\<close> returns no error, and what the two
  \<open>select\<close>s on the output channels take.
\<close>

record output_deps =
  Sign :: "NodeID \<Rightarrow> Message \<Rightarrow> 512 word"
  Publish_ok :: "nat \<Rightarrow> Message \<Rightarrow> bool"
  coin_select :: selected
  result_select :: selected

text \<open>
  The loop over \<open>session.vrfs\<close>, from index \<open>i\<close> on.  The flag is false when
  \<open>session.signers[i]\<close> is out of range, where the source panics.
\<close>

fun publish_all ::
    "output_deps \<Rightarrow> session \<Rightarrow> Message option \<Rightarrow> nat \<Rightarrow> HareEligibility option list
      \<Rightarrow> bool \<times> event list" where
  "publish_all d s m i [] = (True, [])"
| "publish_all d s m i (vrf # rest) =
     (case vrf of
        None \<Rightarrow> publish_all d s m (i + 1) rest
      | Some v \<Rightarrow>
          (case m of
             None \<Rightarrow> publish_all d s m (i + 1) rest
           | Some template \<Rightarrow>
               if length (signers s) \<le> i then (False, [])
               else
                 let unsigned = template\<lparr>m_Layer := lid s, Eligibility := v,
                                         Sender := signers s ! i\<rparr>;
                     signed = unsigned\<lparr>Signature := Sign d (signers s ! i) unsigned\<rparr>;
                     (ok, evs) = publish_all d s m (i + 1) rest
                 in (ok, Published i signed
                          # (if Publish_ok d i signed then [] else [LogPublishFailed i]) @ evs)))"

definition send_result ::
    "output_deps \<Rightarrow> session \<Rightarrow> output \<Rightarrow> run_error option outcome \<times> event list" where
  "send_result d s out =
     (case result out of
        None \<Rightarrow> (Returns None, [])
      | Some r \<Rightarrow>
          (case result_select d of
             CtxDone \<Rightarrow> (Returns (Some CtxCanceled), [TookCtxDone AtResult])
           | Never \<Rightarrow> (Blocked, [])
           | Ready \<Rightarrow> (Returns None, [ResultSent (lid s) r])))"

definition send_coin ::
    "output_deps \<Rightarrow> session \<Rightarrow> output \<Rightarrow> run_error option outcome \<times> event list" where
  "send_coin d s out =
     (case coin out of
        None \<Rightarrow> send_result d s out
      | Some c \<Rightarrow>
          (case coin_select d of
             CtxDone \<Rightarrow> (Returns (Some CtxCanceled), [TookCtxDone AtCoin])
           | Never \<Rightarrow> (Blocked, [])
           | Ready \<Rightarrow>
               (let (r, evs) = send_result d s out in (r, CoinSent (lid s) c # evs))))"

definition onOutput ::
    "output_deps \<Rightarrow> session \<Rightarrow> IterRound \<Rightarrow> output \<Rightarrow> run_error option outcome \<times> event list" where
  "onOutput d s ir out =
     (let (ok, pubs) = publish_all d s (message out) 0 (vrfs s)
      in if \<not> ok then (Panics, pubs)
         else
           let (r, evs) = send_coin d s out
           in (r, pubs @ [OnMessageSent (message out)] @ evs))"








fun is_log :: "event \<Rightarrow> bool" where
  "is_log (LogPublishFailed i) = True"
| "is_log e = False"

subsection \<open>Sample states\<close>

text \<open>Epochs of four layers.\<close>

definition epoch4 :: "LayerID \<Rightarrow> EpochID" where
  "epoch4 l = l div 4"

definition h0 :: Hare where
  "h0 = \<lparr>sessions = Map.empty, registered = [1, 2], config = DefaultConfig,
         proposals_OnLayer = [], patrol_SetHareInCharge = [], patrol_CompleteHare = [],
         eg = []\<rparr>"

definition h1 :: Hare where
  "h1 = h0\<lparr>sessions := [10 \<mapsto> newProtocol 401]\<rparr>"

definition m0 :: Message where
  "m0 = \<lparr>m_Layer = 10, m_IterRound = \<lparr>Iter = 0, Round = 3\<rparr>, Value = [],
         Eligibility = \<lparr>Proof = 0, Count = 1\<rparr>, Sender = 5, Signature = 0\<rparr>"

definition proof0 :: HareProof where
  "proof0 = \<lparr>Messages0 = \<lparr>hp_SmesherID = 5, hp_Signature = 1\<rparr>,
             Messages1 = \<lparr>hp_SmesherID = 5, hp_Signature = 2\<rparr>\<rparr>"

text \<open>Sample collaborators: the first byte of the buffer is the message's layer, the
  second its signature (0 verifies), the third its grade (0 is \<open>grade0\<close>); the state
  machine reports an equivocation for every input.\<close>

definition d0 :: handler_deps where
  "d0 = \<lparr>Decode = (\<lambda>buf. case buf of
                      [l, s, g] \<Rightarrow> Some (m0\<lparr>m_Layer := ucast l, Signature := ucast s,
                                            Value := [ucast g]\<rparr>)
                    | _ \<Rightarrow> None),
         MsgValidate = (\<lambda>m. True),
         Verify = (\<lambda>m. Signature m = 0),
         ToHash = (\<lambda>m. 0),
         oracle_validate = (\<lambda>m. if Value m = [0] then grade0 else grade3),
         OnInput = (\<lambda>p i. (True, Some proof0)),
         SetMalicious_ok = (\<lambda>n p. True),
         LayerToTime = (\<lambda>l. 0),
         Now = 0\<rparr>"

definition w0 :: stores where
  "w0 = \<lparr>atx_malicious = [], identities = []\<rparr>"

text \<open>A session of layer 10 (epoch 2 under \<open>epoch4\<close>) with the one signer 1.\<close>

definition s0 :: session where
  "s0 = \<lparr>proto = newProtocol 401, lid = 10, beacon = 9, signers = [1], vrfs = [None]\<rparr>"

definition p7 :: Proposal where
  "p7 = \<lparr>ID = 7, AtxID = 200, SmesherID = 2, p_malicious = False, p_Beacon = 9\<rparr>"

text \<open>Signer 1 published ATX 100 in epoch 1, of base height 10 and height 20; the one
  candidate of layer 10 builds on ATX 200, of base height 15 and height 30.\<close>

definition sd0 :: select_deps where
  "sd0 = \<lparr>GetIDByEpochAndNodeID = (\<lambda>e n. if e = 1 \<and> n = 1 then Row 100 else ErrNotFound),
          atxsdata_Get = (\<lambda>e a. if e = 2 \<and> a = 100 then Some \<lparr>BaseHeight = 10, Height = 20\<rparr>
                                else if e = 2 \<and> a = 200 then Some \<lparr>BaseHeight = 15, Height = 30\<rparr>
                                else None),
          IsMalicious = (\<lambda>n. False),
          GetForLayer = (\<lambda>l. if l = 10 then [p7] else [])\<rparr>"

text \<open>Sample environments of the scheduler: every publish fails; no signer is ever
  eligible.\<close>

definition od0 :: output_deps where
  "od0 = \<lparr>Sign = (\<lambda>n m. 0), Publish_ok = (\<lambda>i m. False), coin_select = Ready,
          result_select = Ready\<rparr>"






section \<open>Arithmetic of durations\<close>

lemma sint_affine:
  fixes a b :: "64 word"
  assumes "- (2 ^ 63) \<le> sint a + int n * sint b" and "sint a + int n * sint b < 2 ^ 63"
  shows "sint (a + of_nat n * b) = sint a + int n * sint b"
proof -
  have "a + of_nat n * b = word_of_int (sint a + int n * sint b)"
    by simp
  then have "sint (a + of_nat n * b) = signed_take_bit 63 (sint a + int n * sint b)"
    by (simp only: sint_sbintrunc') simp
  also have "\<dots> = sint a + int n * sint b"
    using assms by (simp add: signed_take_bit_int_eq_self)
  finally show ?thesis .
qed

lemma Absolute_hardlock: "Absolute rpi \<lparr>Iter = i, Round = hardlock\<rparr> - 1 = unat i * unat rpi"
  by (simp add: Absolute_def hardlock_def)

lemma roundStart_hardlock:
  "roundStart rpi cfg \<lparr>Iter = i, Round = hardlock\<rparr> =
     PreroundDelay cfg + of_nat (unat i * unat rpi) * RoundDuration cfg"
  by (simp only: roundStart_def Absolute_hardlock) (simp add: hardlock_def)

section \<open>Claims on the configuration\<close>

text \<open>
  C1 (as amended).  \<open>Validate\<close> succeeds exactly when the terminating round
  \<open>(IterationsLimit, hardlock)\<close> starts no later than \<open>zdist\<close>, that is
  \<open>PreroundDelay + (IterationsLimit * rounds_per_iter) * RoundDuration \<le> zdist\<close> in the
  signed 64-bit arithmetic of durations, and it is not the case that the protocol is
  enabled with \<open>DisableLayer \<le> EnableLayer\<close>.  Whenever the left-hand side fits 64 bits
  as an integer, the bound is the bound over the integers.
\<close>

theorem Validate_succeeds_iff:
  "(Validate rpi cfg zdist = None \<longleftrightarrow>
      PreroundDelay cfg + of_nat (unat (IterationsLimit cfg) * unat rpi) * RoundDuration cfg \<le>s zdist
      \<and> \<not> (Enable cfg \<and> DisableLayer cfg \<le> EnableLayer cfg))
   \<and> (- (2 ^ 63) \<le> sint (PreroundDelay cfg)
            + int (unat (IterationsLimit cfg) * unat rpi) * sint (RoundDuration cfg)
       \<and> sint (PreroundDelay cfg)
            + int (unat (IterationsLimit cfg) * unat rpi) * sint (RoundDuration cfg) < 2 ^ 63
       \<longrightarrow> (Validate rpi cfg zdist = None \<longleftrightarrow>
              sint (PreroundDelay cfg)
                + int (unat (IterationsLimit cfg) * unat rpi) * sint (RoundDuration cfg)
                \<le> sint zdist
              \<and> \<not> (Enable cfg \<and> DisableLayer cfg \<le> EnableLayer cfg)))"
proof -
  let ?t = "PreroundDelay cfg + of_nat (unat (IterationsLimit cfg) * unat rpi) * RoundDuration cfg"
  have word: "Validate rpi cfg zdist = None \<longleftrightarrow>
      ?t \<le>s zdist \<and> \<not> (Enable cfg \<and> DisableLayer cfg \<le> EnableLayer cfg)"
    unfolding Validate_def roundStart_hardlock Let_def
    by (auto simp: word_sle_eq word_sless_alt)
  have "sint ?t = sint (PreroundDelay cfg)
            + int (unat (IterationsLimit cfg) * unat rpi) * sint (RoundDuration cfg)"
    if "- (2 ^ 63) \<le> sint (PreroundDelay cfg)
            + int (unat (IterationsLimit cfg) * unat rpi) * sint (RoundDuration cfg)"
      and "sint (PreroundDelay cfg)
            + int (unat (IterationsLimit cfg) * unat rpi) * sint (RoundDuration cfg) < 2 ^ 63"
    using that by (rule sint_affine)
  then have int: "?t \<le>s zdist \<longleftrightarrow>
      sint (PreroundDelay cfg)
        + int (unat (IterationsLimit cfg) * unat rpi) * sint (RoundDuration cfg) \<le> sint zdist"
    if "- (2 ^ 63) \<le> sint (PreroundDelay cfg)
            + int (unat (IterationsLimit cfg) * unat rpi) * sint (RoundDuration cfg)
       \<and> sint (PreroundDelay cfg)
            + int (unat (IterationsLimit cfg) * unat rpi) * sint (RoundDuration cfg) < 2 ^ 63"
    using that by (simp only: word_sle_eq)
  show ?thesis
  proof (intro conjI impI)
    show "Validate rpi cfg zdist = None \<longleftrightarrow>
      ?t \<le>s zdist \<and> \<not> (Enable cfg \<and> DisableLayer cfg \<le> EnableLayer cfg)"
      by (rule word)
  next
    assume "- (2 ^ 63) \<le> sint (PreroundDelay cfg)
            + int (unat (IterationsLimit cfg) * unat rpi) * sint (RoundDuration cfg)
       \<and> sint (PreroundDelay cfg)
            + int (unat (IterationsLimit cfg) * unat rpi) * sint (RoundDuration cfg) < 2 ^ 63"
    from int [OF this] word
    show "Validate rpi cfg zdist = None \<longleftrightarrow>
              sint (PreroundDelay cfg)
                + int (unat (IterationsLimit cfg) * unat rpi) * sint (RoundDuration cfg)
                \<le> sint zdist
              \<and> \<not> (Enable cfg \<and> DisableLayer cfg \<le> EnableLayer cfg)"
      by (simp only:)
  qed
qed

theorem Validate_succeeds_iff_witness:
  "Validate 7 DefaultConfig (361 * Second) = None
   \<and> Validate 7 DefaultConfig (361 * Second - 1) \<noteq> None"
  using Validate_succeeds_iff [of 7 DefaultConfig "361 * Second"]
    Validate_succeeds_iff [of 7 DefaultConfig "361 * Second - 1"]
  by (simp add: DefaultConfig_def Second_def word_sle_eq)

theorem Validate_guard_counterexample:
  "sint (PreroundDelay (DefaultConfig\<lparr>Enable := True, EnableLayer := 5, DisableLayer := 5\<rparr>))
     + int (unat (IterationsLimit (DefaultConfig\<lparr>Enable := True, EnableLayer := 5, DisableLayer := 5\<rparr>))
            * unat (7 :: 8 word))
       * sint (RoundDuration (DefaultConfig\<lparr>Enable := True, EnableLayer := 5, DisableLayer := 5\<rparr>))
     \<le> sint (361 * Second)
   \<and> Validate 7 (DefaultConfig\<lparr>Enable := True, EnableLayer := 5, DisableLayer := 5\<rparr>) (361 * Second)
       = Some (DisabledNotLarger 5 5)
   \<and> \<not> sint (PreroundDelay (DefaultConfig\<lparr>RoundDuration := 4611686018427387904\<rparr>))
     + int (unat (IterationsLimit (DefaultConfig\<lparr>RoundDuration := 4611686018427387904\<rparr>))
            * unat (7 :: 8 word))
       * sint (RoundDuration (DefaultConfig\<lparr>RoundDuration := 4611686018427387904\<rparr>))
     \<le> sint (361 * Second)
   \<and> Validate 7 (DefaultConfig\<lparr>RoundDuration := 4611686018427387904\<rparr>) (361 * Second) = None"
  by (simp add: Validate_def roundStart_def Absolute_def hardlock_def DefaultConfig_def Second_def
      word_sless_alt)

section \<open>Sessions, the registry and the layer loop\<close>

lemma unat_Suc_below:
  fixes n d :: "32 word"
  assumes "n < d"
  shows "unat (n + 1) = Suc (unat n)"
proof -
  have "unat n < unat d"
    using assms by (simp add: word_less_nat_alt)
  moreover have "unat d < 2 ^ 32"
    using unsigned_less [of d] by simp
  ultimately show ?thesis
    by (simp add: unat_word_ariths)
qed

lemma Start_loop_eq:
  "Start_loop ctx_done n d = takeWhile (\<lambda>l. \<not> ctx_done l) (map of_nat [unat n ..< unat d])"
proof (induction ctx_done n d rule: Start_loop.induct)
  case (1 ctx_done n d)
  show ?case
  proof (cases "n < d")
    case True
    then have lt: "unat n < unat d"
      by (simp add: word_less_nat_alt)
    have upt: "[unat n ..< unat d] = unat n # [unat (n + 1) ..< unat d]"
      using lt by (simp add: unat_Suc_below [OF True] upt_conv_Cons)
    show ?thesis
    proof (cases "ctx_done n")
      case True
      with \<open>n < d\<close> show ?thesis
        by (subst Start_loop.simps) (simp add: upt)
    next
      case False
      with \<open>n < d\<close> "1.IH" show ?thesis
        by (subst Start_loop.simps) (simp add: upt)
    qed
  next
    case False
    then have "\<not> unat n < unat d"
      by (simp add: word_less_nat_alt)
    with False show ?thesis
      by (subst Start_loop.simps) simp
  qed
qed

lemma set_layers_upt:
  fixes lo hi :: "32 word"
  shows "set (map of_nat [unat lo ..< unat hi]) = {l :: 32 word. lo \<le> l \<and> l < hi}"
proof (intro set_eqI iffI)
  fix l :: "32 word"
  assume "l \<in> set (map of_nat [unat lo ..< unat hi])"
  then obtain k where k: "unat lo \<le> k" "k < unat hi" "l = of_nat k"
    by auto
  have "unat hi < 2 ^ 32"
    using unsigned_less [of hi] by simp
  with k have "unat l = k"
    by (simp add: unat_of_nat)
  with k show "l \<in> {l. lo \<le> l \<and> l < hi}"
    by (simp add: word_le_nat_alt word_less_nat_alt)
next
  fix l :: "32 word"
  assume "l \<in> {l. lo \<le> l \<and> l < hi}"
  then have "unat lo \<le> unat l" "unat l < unat hi"
    by (simp_all add: word_le_nat_alt word_less_nat_alt)
  then have "unat l \<in> set [unat lo ..< unat hi]"
    by simp
  then have "of_nat (unat l) \<in> set (map of_nat [unat lo ..< unat hi] :: 32 word list)"
    unfolding set_map by (rule imageI)
  then show "l \<in> set (map of_nat [unat lo ..< unat hi])"
    by simp
qed

lemma unat_half_Suc:
  fixes x :: "16 word"
  shows "unat (x div 2 + 1) = unat x div 2 + 1"
proof -
  have "unat x < 2 ^ 16"
    using unsigned_less [of x] by simp
  then have "unat x div 2 + 1 < 2 ^ 16"
    by simp
  then show ?thesis
    by (simp add: unat_word_ariths unat_div)
qed

text \<open>
  C2.  The committee size of a layer is the upgrade size when an upgrade is configured
  and the layer is at or after the upgrade's layer, and the default size otherwise; the
  session that \<open>onLayer\<close> registers for the layer has the threshold "that size divided
  by 2, plus 1", with no wrap-around.
\<close>

theorem CommitteeFor_threshold:
  "(\<forall>u. Upgrade cfg = Some u \<and> Layer u \<le> L \<longrightarrow> CommitteeFor cfg L = Size u)
   \<and> (Upgrade cfg = None \<or> (\<exists>u. Upgrade cfg = Some u \<and> L < Layer u)
       \<longrightarrow> CommitteeFor cfg L = Committee cfg)
   \<and> (synced \<and> beacons_Get (GetEpoch L) = Some b \<and> b \<noteq> EmptyBeacon
       \<longrightarrow> (\<exists>p. sessions (onLayer GetEpoch synced beacons_Get h L) L = Some p
              \<and> unat (threshold p) = unat (CommitteeFor (config h) L) div 2 + 1))"
  by (auto simp: CommitteeFor_def onLayer_def Let_def newProtocol_def unat_half_Suc
      split: option.splits)

theorem CommitteeFor_threshold_witness:
  "CommitteeFor (DefaultConfig\<lparr>Upgrade := Some \<lparr>Layer = 10, Size = 600\<rparr>\<rparr>) 9 = 800
   \<and> CommitteeFor (DefaultConfig\<lparr>Upgrade := Some \<lparr>Layer = 10, Size = 600\<rparr>\<rparr>) 10 = 600
   \<and> (\<exists>p. sessions (onLayer epoch4 True [2 \<mapsto> 7]
            (h0\<lparr>config := DefaultConfig\<lparr>Upgrade := Some \<lparr>Layer = 10, Size = 600\<rparr>\<rparr>\<rparr>) 10) 10 = Some p
          \<and> unat (threshold p) = 301)"
  using CommitteeFor_threshold [where cfg = "DefaultConfig\<lparr>Upgrade := Some \<lparr>Layer = 10, Size = 600\<rparr>\<rparr>"
      and L = 9 and synced = False]
    CommitteeFor_threshold [where cfg = "DefaultConfig\<lparr>Upgrade := Some \<lparr>Layer = 10, Size = 600\<rparr>\<rparr>"
      and L = 10 and synced = True and beacons_Get = "[2 \<mapsto> 7]" and GetEpoch = epoch4 and b = 7
      and h = "h0\<lparr>config := DefaultConfig\<lparr>Upgrade := Some \<lparr>Layer = 10, Size = 600\<rparr>\<rparr>\<rparr>"]
  by (simp add: DefaultConfig_def h0_def epoch4_def EmptyBeacon_def CommitteeFor_def)

text \<open>
  C6.  \<open>onLayer\<close> registers a session for the layer and starts its task exactly when
  the node is synced and the beacon of the layer's epoch is found and is not the empty
  beacon; otherwise the registry and the started tasks are as they were.
\<close>

theorem onLayer_session_iff:
  "(synced \<and> (\<exists>b. beacons_Get (GetEpoch L) = Some b \<and> b \<noteq> EmptyBeacon)
      \<longrightarrow> (\<exists>s. eg (onLayer GetEpoch synced beacons_Get h L) = eg h @ [s] \<and> lid s = L
             \<and> beacons_Get (GetEpoch L) = Some (beacon s)
             \<and> sessions (onLayer GetEpoch synced beacons_Get h L) = (sessions h)(L \<mapsto> proto s)))
   \<and> (\<not> (synced \<and> (\<exists>b. beacons_Get (GetEpoch L) = Some b \<and> b \<noteq> EmptyBeacon))
      \<longrightarrow> sessions (onLayer GetEpoch synced beacons_Get h L) = sessions h
          \<and> eg (onLayer GetEpoch synced beacons_Get h L) = eg h)"
  by (auto simp: onLayer_def Let_def split: option.splits)

theorem onLayer_session_iff_witness:
  "(\<exists>s. eg (onLayer epoch4 True [2 \<mapsto> 7] h0 10) = eg h0 @ [s] \<and> lid s = 10 \<and> beacon s = 7
       \<and> sessions (onLayer epoch4 True [2 \<mapsto> 7] h0 10) = (sessions h0)(10 \<mapsto> proto s))
   \<and> sessions (onLayer epoch4 False [2 \<mapsto> 7] h0 10) = sessions h0
   \<and> eg (onLayer epoch4 False [2 \<mapsto> 7] h0 10) = eg h0
   \<and> sessions (onLayer epoch4 True [2 \<mapsto> 0] h0 10) = sessions h0
   \<and> sessions (onLayer epoch4 True Map.empty h0 10) = sessions h0"
  using onLayer_session_iff [where synced = True and beacons_Get = "[2 \<mapsto> 7]" and GetEpoch = epoch4
      and L = 10 and h = h0]
    onLayer_session_iff [where synced = False and beacons_Get = "[2 \<mapsto> 7]" and GetEpoch = epoch4
      and L = 10 and h = h0]
    onLayer_session_iff [where synced = True and beacons_Get = "[2 \<mapsto> 0]" and GetEpoch = epoch4
      and L = 10 and h = h0]
    onLayer_session_iff [where synced = True and beacons_Get = Map.empty and GetEpoch = epoch4
      and L = 10 and h = h0]
  by (simp add: epoch4_def EmptyBeacon_def)

text \<open>
  C10.  The loop of \<open>Start\<close> calls \<open>onLayer\<close> for the layers from
  \<open>max (current + 1, EnableLayer, effective genesis + 1)\<close> up to, but excluding, the
  disable bound, in increasing order, until the context is cancelled; the disable bound
  is \<open>DisableLayer\<close> when that is positive and \<open>2^32 - 1\<close> when it is zero.  Without
  cancellation these are all the layers of that range.
\<close>

theorem Start_layers_range:
  "Start_layers cfg cur gen ctx_done
     = takeWhile (\<lambda>l. \<not> ctx_done l)
         (map of_nat [unat (max (cur + 1) (max (EnableLayer cfg) (gen + 1)))
                      ..< unat (if DisableLayer cfg = 0 then 2 ^ 32 - 1 else DisableLayer cfg)])
   \<and> set (Start_layers cfg cur gen (\<lambda>l. False))
     = {l. max (cur + 1) (max (EnableLayer cfg) (gen + 1)) \<le> l
          \<and> l < (if DisableLayer cfg = 0 then 2 ^ 32 - 1 else DisableLayer cfg)}"
proof -
  have d: "Start_disabled cfg = (if DisableLayer cfg = 0 then 2 ^ 32 - 1 else DisableLayer cfg)"
    by (simp add: Start_disabled_def word_greater_zero_iff)
  have tw: "takeWhile (\<lambda>l. \<not> False) xs = xs" for xs :: "LayerID list"
    by simp
  show ?thesis
    unfolding Start_layers_def Start_loop_eq Start_enabled_def d tw set_layers_upt
    by (rule conjI) (rule refl)+
qed

theorem Start_layers_range_witness:
  "Start_layers (DefaultConfig\<lparr>DisableLayer := 6\<rparr>) 2 1 (\<lambda>l. False) = [3, 4, 5]
   \<and> Start_layers (DefaultConfig\<lparr>EnableLayer := 4294967290, DisableLayer := 0\<rparr>) 2 1 (\<lambda>l. False)
       = [4294967290, 4294967291, 4294967292, 4294967293, 4294967294]"
  using Start_layers_range [of "DefaultConfig\<lparr>DisableLayer := 6\<rparr>" 2 1 "\<lambda>l. False"]
    Start_layers_range [of "DefaultConfig\<lparr>EnableLayer := 4294967290, DisableLayer := 0\<rparr>" 2 1 "\<lambda>l. False"]
  by (simp add: DefaultConfig_def upt_rec)

section \<open>The gossip handler\<close>

lemma Handler_cases:
  obtains
    (decode) "Decode d buf = None"
      "Handler rpi d h w buf = (Some (ValidationReject ''decoding error''), w, [CallDecode])"
  | (invalid) m where "Decode d buf = Some m" "\<not> MsgValidate d m"
      "Handler rpi d h w buf = (Some (ValidationReject ''validation''), w, [CallDecode, CallValidate])"
  | (unregistered) m where "Decode d buf = Some m" "MsgValidate d m" "sessions h (m_Layer m) = None"
      "Handler rpi d h w buf = (Some (NotRegistered (m_Layer m)), w,
          [CallDecode, CallValidate, CallLookup (m_Layer m)])"
  | (signature) m s where "Decode d buf = Some m" "MsgValidate d m"
      "sessions h (m_Layer m) = Some s" "\<not> Verify d m"
      "Handler rpi d h w buf = (Some (ValidationReject ''invalid signature''), w,
          [CallDecode, CallValidate, CallLookup (m_Layer m), CallVerify])"
  | (zero) m s where "Decode d buf = Some m" "MsgValidate d m"
      "sessions h (m_Layer m) = Some s" "Verify d m" "oracle_validate d m = grade0"
      "Handler rpi d h w buf = (Some ZeroGrade, w,
          [CallDecode, CallValidate, CallLookup (m_Layer m), CallVerify,
           CallIsMalicious (Sender m), CallOracleValidate])"
  | (handled) m s gossip equivocation w' evs where "Decode d buf = Some m" "MsgValidate d m"
      "sessions h (m_Layer m) = Some s" "Verify d m" "oracle_validate d m \<noteq> grade0"
      "OnInput d s \<lparr>msg = m, msgHash = ToHash d m,
          malicious = (Sender m \<in> set (atx_malicious w)), atxgrade = oracle_validate d m\<rparr>
        = (gossip, equivocation)"
      "(w', evs) = (case equivocation of
           Some e \<Rightarrow> if Sender m \<notin> set (atx_malicious w) then register_equivocation d w e else (w, [])
         | None \<Rightarrow> (w, []))"
      "Handler rpi d h w buf =
         (if gossip then None else Some DroppedByGossip, w',
          [CallDecode, CallValidate, CallLookup (m_Layer m), CallVerify,
           CallIsMalicious (Sender m), CallOracleValidate, CallOnInput] @ evs
          @ (if gossip then [ReportMessageLatency
                 (Now d - expected_arrival rpi (config h) (LayerToTime d (m_Layer m)) (m_IterRound m))]
             else []))"
proof (cases "Decode d buf")
  case None
  then show ?thesis
    by (intro decode) (simp_all add: Handler_def)
next
  case (Some m)
  note dec = this
  show ?thesis
  proof (cases "MsgValidate d m")
    case False
    with dec show ?thesis
      by (intro invalid [of m]) (simp_all add: Handler_def)
  next
    case True
    note val = this
    show ?thesis
    proof (cases "sessions h (m_Layer m)")
      case None
      with dec val show ?thesis
        by (intro unregistered [of m]) (simp_all add: Handler_def)
    next
      case (Some s)
      note reg = this
      show ?thesis
      proof (cases "Verify d m")
        case False
        with dec val reg show ?thesis
          by (intro signature [of m s]) (simp_all add: Handler_def)
      next
        case True
        note ver = this
        show ?thesis
        proof (cases "oracle_validate d m = grade0")
          case True
          with dec val reg ver show ?thesis
            by (intro zero [of m s]) (simp_all add: Handler_def)
        next
          case False
          obtain gossip equivocation where oi:
            "OnInput d s \<lparr>msg = m, msgHash = ToHash d m,
               malicious = (Sender m \<in> set (atx_malicious w)), atxgrade = oracle_validate d m\<rparr>
             = (gossip, equivocation)"
            by (cases "OnInput d s \<lparr>msg = m, msgHash = ToHash d m,
               malicious = (Sender m \<in> set (atx_malicious w)), atxgrade = oracle_validate d m\<rparr>")
          obtain w' evs where we: "(w', evs) = (case equivocation of
               Some e \<Rightarrow> if Sender m \<notin> set (atx_malicious w) then register_equivocation d w e else (w, [])
             | None \<Rightarrow> (w, []))"
            by (cases "(case equivocation of
               Some e \<Rightarrow> if Sender m \<notin> set (atx_malicious w) then register_equivocation d w e else (w, [])
             | None \<Rightarrow> (w, []))") simp
          from dec val reg ver False oi we [symmetric] show ?thesis
            by (intro handled [of m s gossip equivocation w' evs])
              (simp_all add: Handler_def Let_def)
        qed
      qed
    qed
  qed
qed

lemma register_equivocation_steps:
  "List.map_filter step_rank (snd (register_equivocation d w e)) = []"
  by (simp add: register_equivocation_def Let_def List.map_filter_simps)

lemma equivocation_branch_steps:
  assumes "(w', evs) = (case equivocation of
       Some e \<Rightarrow> if c then register_equivocation d w e else (w, [])
     | None \<Rightarrow> (w, []))"
  shows "List.map_filter step_rank evs = []" and "CallVerify \<notin> set evs"
    and "filter (\<lambda>e. step_rank e \<noteq> None) evs = []" and "CallOnInput \<notin> set evs"
proof -
  have "evs = snd (case equivocation of
       Some e \<Rightarrow> if c then register_equivocation d w e else (w, [])
     | None \<Rightarrow> (w, []))"
    using assms by (metis snd_conv)
  then show "List.map_filter step_rank evs = []" and "CallVerify \<notin> set evs"
    and "filter (\<lambda>e. step_rank e \<noteq> None) evs = []" and "CallOnInput \<notin> set evs"
    by (auto simp: register_equivocation_def Let_def List.map_filter_simps
        split: option.splits if_splits)
qed

text \<open>
  C3.  \<open>Handler\<close> decodes, validates, looks the session up, verifies the signature and
  grades, in this order, stopping at the first step that fails: the steps it performs are
  decoding alone when decoding fails, decoding and the syntactic check when that fails,
  these and the lookup when the layer is not registered, these and the verification when
  the signature does not verify, and all five otherwise; the state machine is called
  exactly when all five pass with a grade that is not zero.  Its error wraps the
  transport's validation-reject error exactly when decoding fails, the syntactic check
  fails, or the layer is registered and the signature does not verify.  A message of an
  unregistered layer gets the error "not registered", which does not wrap it, and its
  signature is never verified; a message graded zero gets the error "zero grade", which
  does not wrap it either.
\<close>

theorem Handler_steps_and_rejections:
  "case Handler rpi d h w buf of (r, w', calls) \<Rightarrow>
     (\<exists>n. List.map_filter step_rank calls = take n [0, 1, 2, 3, 4])
     \<and> filter (\<lambda>e. step_rank e \<noteq> None) calls
         = (case Decode d buf of
              None \<Rightarrow> [CallDecode]
            | Some m \<Rightarrow>
                if \<not> MsgValidate d m then [CallDecode, CallValidate]
                else if sessions h (m_Layer m) = None
                then [CallDecode, CallValidate, CallLookup (m_Layer m)]
                else if \<not> Verify d m
                then [CallDecode, CallValidate, CallLookup (m_Layer m), CallVerify]
                else [CallDecode, CallValidate, CallLookup (m_Layer m), CallVerify,
                      CallOracleValidate])
     \<and> (CallOnInput \<in> set calls \<longleftrightarrow>
          (\<exists>m. Decode d buf = Some m \<and> MsgValidate d m \<and> sessions h (m_Layer m) \<noteq> None
                \<and> Verify d m \<and> oracle_validate d m \<noteq> grade0))
     \<and> (r = None \<or> r = Some DroppedByGossip \<longleftrightarrow>
          (\<exists>m. Decode d buf = Some m \<and> MsgValidate d m \<and> sessions h (m_Layer m) \<noteq> None
                \<and> Verify d m \<and> oracle_validate d m \<noteq> grade0))
     \<and> (wraps_ErrValidationReject r \<longleftrightarrow>
          Decode d buf = None
          \<or> (\<exists>m. Decode d buf = Some m
                \<and> (\<not> MsgValidate d m \<or> (sessions h (m_Layer m) \<noteq> None \<and> \<not> Verify d m))))
     \<and> (\<forall>m. Decode d buf = Some m \<and> MsgValidate d m \<and> sessions h (m_Layer m) = None
            \<longrightarrow> r = Some (NotRegistered (m_Layer m)) \<and> \<not> wraps_ErrValidationReject r
                \<and> CallVerify \<notin> set calls)
     \<and> (\<forall>m. Decode d buf = Some m \<and> MsgValidate d m \<and> sessions h (m_Layer m) \<noteq> None
              \<and> Verify d m \<and> oracle_validate d m = grade0
            \<longrightarrow> r = Some ZeroGrade \<and> \<not> wraps_ErrValidationReject r)"
proof (cases rule: Handler_cases [of d buf rpi h w])
  case decode
  have "List.map_filter step_rank [CallDecode] = take 1 [0, 1, 2, 3, 4]"
    by (simp add: List.map_filter_simps)
  then have "\<exists>n. List.map_filter step_rank [CallDecode] = take n [0, 1, 2, 3, 4]" ..
  with decode show ?thesis
    by simp
next
  case (invalid m)
  have "List.map_filter step_rank [CallDecode, CallValidate] = take 2 [0, 1, 2, 3, 4]"
    by (simp add: List.map_filter_simps)
  then have "\<exists>n. List.map_filter step_rank [CallDecode, CallValidate] = take n [0, 1, 2, 3, 4]" ..
  with invalid show ?thesis
    by simp
next
  case (unregistered m)
  have "List.map_filter step_rank [CallDecode, CallValidate, CallLookup (m_Layer m)]
      = take 3 [0, 1, 2, 3, 4]"
    by (simp add: List.map_filter_simps)
  then have "\<exists>n. List.map_filter step_rank [CallDecode, CallValidate, CallLookup (m_Layer m)]
      = take n [0, 1, 2, 3, 4]" ..
  with unregistered show ?thesis
    by simp
next
  case (signature m s)
  have "List.map_filter step_rank [CallDecode, CallValidate, CallLookup (m_Layer m), CallVerify]
      = take 4 [0, 1, 2, 3, 4]"
    by (simp add: List.map_filter_simps)
  then have "\<exists>n. List.map_filter step_rank
        [CallDecode, CallValidate, CallLookup (m_Layer m), CallVerify]
      = take n [0, 1, 2, 3, 4]" ..
  with signature show ?thesis
    by simp
next
  case (zero m s)
  have "List.map_filter step_rank [CallDecode, CallValidate, CallLookup (m_Layer m), CallVerify,
           CallIsMalicious (Sender m), CallOracleValidate]
      = take 5 [0, 1, 2, 3, 4]"
    by (simp add: List.map_filter_simps)
  then have "\<exists>n. List.map_filter step_rank [CallDecode, CallValidate, CallLookup (m_Layer m),
           CallVerify, CallIsMalicious (Sender m), CallOracleValidate]
      = take n [0, 1, 2, 3, 4]" ..
  with zero show ?thesis
    by simp
next
  case (handled m s gossip equivocation w' evs)
  let ?calls = "[CallDecode, CallValidate, CallLookup (m_Layer m), CallVerify,
           CallIsMalicious (Sender m), CallOracleValidate, CallOnInput] @ evs
          @ (if gossip then [ReportMessageLatency
                 (Now d - expected_arrival rpi (config h) (LayerToTime d (m_Layer m)) (m_IterRound m))]
             else [])"
  have "List.map_filter step_rank ?calls = take 5 [0, 1, 2, 3, 4]"
    using equivocation_branch_steps(1) [OF handled(7)]
    by (simp add: List.map_filter_def)
  then have rk: "\<exists>n. List.map_filter step_rank ?calls = take n [0, 1, 2, 3, 4]" ..
  have st: "filter (\<lambda>e. step_rank e \<noteq> None) ?calls
      = [CallDecode, CallValidate, CallLookup (m_Layer m), CallVerify, CallOracleValidate]"
    using equivocation_branch_steps(3) [OF handled(7)] by simp
  have oi: "CallOnInput \<in> set ?calls"
    by simp
  from rk st oi handled(1-5,8) show ?thesis
    by (cases gossip) simp_all
qed

theorem Handler_steps_and_rejections_witness:
  "Handler 7 d0 h1 w0 [11, 1, 1] = (Some (NotRegistered 11), w0,
      [CallDecode, CallValidate, CallLookup 11])
   \<and> wraps_ErrValidationReject (fst (Handler 7 d0 h1 w0 [10, 1, 1]))
   \<and> wraps_ErrValidationReject (fst (Handler 7 d0 h1 w0 []))
   \<and> fst (Handler 7 d0 h1 w0 [10, 0, 0]) = Some ZeroGrade
   \<and> filter (\<lambda>e. step_rank e \<noteq> None) (snd (snd (Handler 7 d0 h1 w0 [10, 1, 1])))
       = [CallDecode, CallValidate, CallLookup 10, CallVerify]
   \<and> CallOnInput \<in> set (snd (snd (Handler 7 d0 h1 w0 [10, 0, 1])))"
  using Handler_steps_and_rejections [where rpi = 7 and d = d0 and h = h1 and w = w0 and buf = "[11, 1, 1]"]
    Handler_steps_and_rejections [where rpi = 7 and d = d0 and h = h1 and w = w0 and buf = "[10, 1, 1]"]
    Handler_steps_and_rejections [where rpi = 7 and d = d0 and h = h1 and w = w0 and buf = "[]"]
    Handler_steps_and_rejections [where rpi = 7 and d = d0 and h = h1 and w = w0 and buf = "[10, 0, 0]"]
    Handler_steps_and_rejections [where rpi = 7 and d = d0 and h = h1 and w = w0 and buf = "[10, 0, 1]"]
  by (simp add: Handler_def d0_def h1_def h0_def m0_def w0_def Let_def split: prod.splits)

lemma equivocation_branch_persist:
  assumes "(w', evs) = (case equivocation of
       Some e \<Rightarrow> if c then register_equivocation d w e else (w, [])
     | None \<Rightarrow> (w, []))"
  shows "(case equivocation of
       Some e \<Rightarrow>
         if c
         then evs = [CallDbSetMalicious (hp_SmesherID (Messages0 e)) e]
                @ (if SetMalicious_ok d (hp_SmesherID (Messages0 e)) e then [] else [LogSaveFailed])
                @ [CallAtxSetMalicious (hp_SmesherID (Messages0 e))]
              \<and> atx_malicious w' = atx_malicious w @ [hp_SmesherID (Messages0 e)]
              \<and> identities w'
                  = (if SetMalicious_ok d (hp_SmesherID (Messages0 e)) e
                     then identities w @ [(hp_SmesherID (Messages0 e), e)] else identities w)
         else evs = [] \<and> w' = w
     | None \<Rightarrow> evs = [] \<and> w' = w)"
  using assms by (auto simp: register_equivocation_def Let_def split: option.splits)

text \<open>
  C8 (as amended).  \<open>Handler\<close> hands the equivocation proof to \<open>identities.SetMalicious\<close>,
  and marks an identity malicious in the ATX data, exactly when the message reaches the
  state machine (it decodes, is valid, its layer is registered, its signature verifies and
  its grade is not zero), the state machine returns an equivocation, and the sender was
  not flagged malicious when the message was received.  Then there is one such call, with
  the proof, for the smesher of the proof's first message (the sender, when the proof is
  about the sender), and that identity is flagged afterwards.  The proof is in the identity
  table afterwards exactly when, in addition, the save succeeds; a failed save is logged,
  the table is as it was, and the identity is flagged all the same.  Otherwise the stores
  are as they were.  A sender already flagged never causes a call.
\<close>

theorem Handler_equivocation_persisted:
  "case Handler rpi d h w buf of (r, w', calls) \<Rightarrow>
     (let registers = (\<exists>m s e. Decode d buf = Some m \<and> MsgValidate d m
             \<and> sessions h (m_Layer m) = Some s \<and> Verify d m \<and> oracle_validate d m \<noteq> grade0
             \<and> snd (OnInput d s \<lparr>msg = m, msgHash = ToHash d m,
                      malicious = (Sender m \<in> set (atx_malicious w)),
                      atxgrade = oracle_validate d m\<rparr>) = Some e
             \<and> Sender m \<notin> set (atx_malicious w))
      in ((\<exists>id p. CallDbSetMalicious id p \<in> set calls) \<longleftrightarrow> registers)
         \<and> ((\<exists>id. CallAtxSetMalicious id \<in> set calls) \<longleftrightarrow> registers)
         \<and> (\<not> registers \<longrightarrow> w' = w \<and> LogSaveFailed \<notin> set calls)
         \<and> (\<forall>m s e. Decode d buf = Some m \<and> sessions h (m_Layer m) = Some s
               \<and> snd (OnInput d s \<lparr>msg = m, msgHash = ToHash d m,
                      malicious = (Sender m \<in> set (atx_malicious w)),
                      atxgrade = oracle_validate d m\<rparr>) = Some e
               \<and> registers
              \<longrightarrow> filter is_persist calls = [CallDbSetMalicious (hp_SmesherID (Messages0 e)) e]
                  \<and> CallAtxSetMalicious (hp_SmesherID (Messages0 e)) \<in> set calls
                  \<and> atx_malicious w' = atx_malicious w @ [hp_SmesherID (Messages0 e)]
                  \<and> identities w'
                      = (if SetMalicious_ok d (hp_SmesherID (Messages0 e)) e
                         then identities w @ [(hp_SmesherID (Messages0 e), e)]
                         else identities w)
                  \<and> (LogSaveFailed \<in> set calls
                        \<longleftrightarrow> \<not> SetMalicious_ok d (hp_SmesherID (Messages0 e)) e)
                  \<and> (hp_SmesherID (Messages0 e) = Sender m \<longrightarrow> Sender m \<in> set (atx_malicious w')))
         \<and> (\<forall>m. Decode d buf = Some m \<and> Sender m \<in> set (atx_malicious w)
              \<longrightarrow> filter is_persist calls = [] \<and> w' = w))"
proof (cases rule: Handler_cases [of d buf rpi h w])
  case decode
  then show ?thesis by simp
next
  case (invalid m)
  then show ?thesis by simp
next
  case (unregistered m)
  then show ?thesis by simp
next
  case (signature m s)
  then show ?thesis by simp
next
  case (zero m s)
  then show ?thesis by simp
next
  case (handled m s gossip equivocation w' evs)
  note br = equivocation_branch_persist [OF handled(7)]
  show ?thesis
  proof (cases equivocation)
    case None
    with br have "evs = []" "w' = w"
      by simp_all
    with handled(1-6,8) None show ?thesis
      by (cases gossip) simp_all
  next
    case (Some e)
    show ?thesis
    proof (cases "Sender m \<in> set (atx_malicious w)")
      case True
      with br Some have "evs = []" "w' = w"
        by simp_all
      with handled(1-6,8) Some True show ?thesis
        by (cases gossip) simp_all
    next
      case False
      let ?id = "hp_SmesherID (Messages0 e)"
      from br Some False have ev: "evs = [CallDbSetMalicious ?id e]
                @ (if SetMalicious_ok d ?id e then [] else [LogSaveFailed])
                @ [CallAtxSetMalicious ?id]"
        and st: "atx_malicious w' = atx_malicious w @ [?id]"
          "identities w' = (if SetMalicious_ok d ?id e then identities w @ [(?id, e)]
                            else identities w)"
        by simp_all
      from handled(1-6,8) Some False ev st show ?thesis
        by (cases gossip; cases "SetMalicious_ok d ?id e") (auto simp: Let_def)
    qed
  qed
qed

theorem Handler_equivocation_persisted_witness:
  "Handler 7 d0 h1 w0 [10, 0, 1]
     = (None, \<lparr>atx_malicious = [5], identities = [(5, proof0)]\<rparr>,
        [CallDecode, CallValidate, CallLookup 10, CallVerify, CallIsMalicious 5,
         CallOracleValidate, CallOnInput, CallDbSetMalicious 5 proof0, CallAtxSetMalicious 5,
         ReportMessageLatency (- 49000000000)])
   \<and> filter is_persist (snd (snd (Handler 7 d0 h1 (w0\<lparr>atx_malicious := [5]\<rparr>) [10, 0, 1]))) = []"
  using Handler_equivocation_persisted [where rpi = 7 and d = d0 and h = h1 and w = w0
      and buf = "[10, 0, 1]"]
    Handler_equivocation_persisted [where rpi = 7 and d = d0 and h = h1
      and w = "w0\<lparr>atx_malicious := [5]\<rparr>" and buf = "[10, 0, 1]"]
  by (simp add: Handler_def d0_def h1_def h0_def m0_def w0_def Let_def register_equivocation_def
      proof0_def expected_arrival_def roundStart_def Absolute_def DefaultConfig_def Second_def
      split: prod.splits)

theorem Handler_save_fails_counterexample:
  "snd (OnInput (d0\<lparr>SetMalicious_ok := \<lambda>n p. False\<rparr>) (newProtocol 401)
          \<lparr>msg = m0\<lparr>m_Layer := 10, Signature := 0, Value := [1]\<rparr>, msgHash = 0,
             malicious = False, atxgrade = grade3\<rparr>) = Some proof0
   \<and> Sender (m0\<lparr>m_Layer := 10, Signature := 0, Value := [1]\<rparr>) \<notin> set (atx_malicious w0)
   \<and> Handler 7 (d0\<lparr>SetMalicious_ok := \<lambda>n p. False\<rparr>) h1 w0 [10, 0, 1]
     = (None, \<lparr>atx_malicious = [5], identities = []\<rparr>,
        [CallDecode, CallValidate, CallLookup 10, CallVerify, CallIsMalicious 5,
         CallOracleValidate, CallOnInput, CallDbSetMalicious 5 proof0, LogSaveFailed,
         CallAtxSetMalicious 5, ReportMessageLatency (- 49000000000)])"
  by (simp add: Handler_def d0_def h1_def h0_def m0_def w0_def Let_def register_equivocation_def
      proof0_def expected_arrival_def roundStart_def Absolute_def DefaultConfig_def Second_def)

lemma expected_arrival_formula:
  "(Round ir = 0 \<longrightarrow> expected_arrival rpi cfg t0 ir = t0 + sint (PreroundDelay cfg))
   \<and> (Round ir \<noteq> 0
       \<and> - (2 ^ 63) \<le> sint (PreroundDelay cfg) + (int (Absolute rpi ir) - 1) * sint (RoundDuration cfg)
       \<and> sint (PreroundDelay cfg) + (int (Absolute rpi ir) - 1) * sint (RoundDuration cfg) < 2 ^ 63
       \<longrightarrow> expected_arrival rpi cfg t0 ir
            = t0 + sint (PreroundDelay cfg) + (int (Absolute rpi ir) - 1) * sint (RoundDuration cfg))"
proof (intro conjI impI)
  assume "Round ir = 0"
  then show "expected_arrival rpi cfg t0 ir = t0 + sint (PreroundDelay cfg)"
    by (simp add: expected_arrival_def roundStart_def)
next
  assume h: "Round ir \<noteq> 0
       \<and> - (2 ^ 63) \<le> sint (PreroundDelay cfg) + (int (Absolute rpi ir) - 1) * sint (RoundDuration cfg)
       \<and> sint (PreroundDelay cfg) + (int (Absolute rpi ir) - 1) * sint (RoundDuration cfg) < 2 ^ 63"
  then have "unat (Round ir) \<noteq> 0"
    by (simp add: unat_eq_0)
  then have pos: "1 \<le> Absolute rpi ir"
    by (simp add: Absolute_def)
  then have eq: "int (Absolute rpi ir - 1) = int (Absolute rpi ir) - 1"
    by simp
  have st: "sint (PreroundDelay cfg + of_nat (Absolute rpi ir - 1) * RoundDuration cfg)
        = sint (PreroundDelay cfg) + int (Absolute rpi ir - 1) * sint (RoundDuration cfg)"
    using h by (intro sint_affine) (simp_all only: eq)
  have rs: "roundStart rpi cfg ir
        = PreroundDelay cfg + of_nat (Absolute rpi ir - 1) * RoundDuration cfg"
    using h by (simp add: roundStart_def)
  show "expected_arrival rpi cfg t0 ir
      = t0 + sint (PreroundDelay cfg) + (int (Absolute rpi ir) - 1) * sint (RoundDuration cfg)"
    unfolding expected_arrival_def rs st eq by simp
qed

lemma Handler_clock_independent:
  "fst (Handler rpi (d\<lparr>LayerToTime := lt, Now := nw\<rparr>) (h\<lparr>config := c\<rparr>) w buf)
     = fst (Handler rpi d h w buf)"
  by (simp add: Handler_def Let_def split_beta split: option.splits)

lemma equivocation_branch_latency:
  assumes "(w', evs) = (case equivocation of
       Some e \<Rightarrow> if c then register_equivocation d w e else (w, [])
     | None \<Rightarrow> (w, []))"
  shows "ReportMessageLatency x \<notin> set evs"
proof -
  have "evs = snd (case equivocation of
       Some e \<Rightarrow> if c then register_equivocation d w e else (w, [])
     | None \<Rightarrow> (w, []))"
    using assms by (metis snd_conv)
  then show ?thesis
    by (auto simp: register_equivocation_def Let_def split: option.splits if_splits)
qed

text \<open>
  C4 (as amended).  \<open>Handler\<close> reports a latency exactly when it accepts the message, and
  the latency it reports is the time since the expected arrival
  \<open>LayerToTime(layer).Add(roundStart(round))\<close>.  For a round whose round index is not 0
  that instant is \<open>layer_start + preround_delay + (absolute(r) - 1) * round_duration\<close>
  (whenever the offset fits a 64-bit duration); for round index 0, the preround, it is
  \<open>layer_start + preround_delay\<close>.  The expected arrival is not used for grading: the
  grade is the oracle's, a message is dropped as graded zero exactly when the oracle says
  so, and the verdict of \<open>Handler\<close> is the same whatever the clocks read and whatever
  the configured delays are.
\<close>

theorem Handler_expected_arrival:
  "(case Handler rpi d h w buf of (r, w', calls) \<Rightarrow>
      ((\<exists>x. ReportMessageLatency x \<in> set calls) \<longleftrightarrow> r = None)
      \<and> (\<forall>x. ReportMessageLatency x \<in> set calls
            \<longrightarrow> (\<exists>m. Decode d buf = Some m
                   \<and> x = Now d - expected_arrival rpi (config h) (LayerToTime d (m_Layer m))
                                (m_IterRound m))))
   \<and> (Round ir = 0 \<longrightarrow> expected_arrival rpi cfg t0 ir = t0 + sint (PreroundDelay cfg))
   \<and> (Round ir \<noteq> 0
       \<and> - (2 ^ 63) \<le> sint (PreroundDelay cfg) + (int (Absolute rpi ir) - 1) * sint (RoundDuration cfg)
       \<and> sint (PreroundDelay cfg) + (int (Absolute rpi ir) - 1) * sint (RoundDuration cfg) < 2 ^ 63
       \<longrightarrow> expected_arrival rpi cfg t0 ir
            = t0 + sint (PreroundDelay cfg) + (int (Absolute rpi ir) - 1) * sint (RoundDuration cfg))
   \<and> fst (Handler rpi (d\<lparr>LayerToTime := lt, Now := nw\<rparr>) (h\<lparr>config := c\<rparr>) w buf)
       = fst (Handler rpi d h w buf)
   \<and> (fst (Handler rpi d h w buf) = Some ZeroGrade \<longleftrightarrow>
        (\<exists>m. Decode d buf = Some m \<and> MsgValidate d m \<and> sessions h (m_Layer m) \<noteq> None
              \<and> Verify d m \<and> oracle_validate d m = grade0))"
proof -
  have lat: "case Handler rpi d h w buf of (r, w', calls) \<Rightarrow>
      ((\<exists>x. ReportMessageLatency x \<in> set calls) \<longleftrightarrow> r = None)
      \<and> (\<forall>x. ReportMessageLatency x \<in> set calls
            \<longrightarrow> (\<exists>m. Decode d buf = Some m
                   \<and> x = Now d - expected_arrival rpi (config h) (LayerToTime d (m_Layer m))
                                (m_IterRound m)))"
  proof (cases rule: Handler_cases [of d buf rpi h w])
    case (handled m s gossip equivocation w' evs)
    note no = equivocation_branch_latency [OF handled(7)]
    from handled(1,8) no show ?thesis
      by (cases gossip) auto
  qed simp_all
  have zero: "fst (Handler rpi d h w buf) = Some ZeroGrade \<longleftrightarrow>
        (\<exists>m. Decode d buf = Some m \<and> MsgValidate d m \<and> sessions h (m_Layer m) \<noteq> None
              \<and> Verify d m \<and> oracle_validate d m = grade0)"
  proof (cases rule: Handler_cases [of d buf rpi h w])
    case (handled m s gossip equivocation w' evs)
    then show ?thesis
      by (cases gossip) simp_all
  qed simp_all
  from lat zero expected_arrival_formula [where ir = ir and rpi = rpi and cfg = cfg and ?t0.0 = t0]
    Handler_clock_independent [where rpi = rpi and d = d and lt = lt and nw = nw and h = h
      and c = c and w = w and buf = buf]
  show ?thesis
    by (simp only: simp_thms)
qed

theorem Handler_expected_arrival_witness:
  "snd (snd (Handler 7 d0 h1 w0 [10, 0, 1]))
     = [CallDecode, CallValidate, CallLookup 10, CallVerify, CallIsMalicious 5,
        CallOracleValidate, CallOnInput, CallDbSetMalicious 5 proof0, CallAtxSetMalicious 5,
        ReportMessageLatency (0 - (0 + 25000000000 + (3 - 1) * 12000000000))]
   \<and> expected_arrival 7 DefaultConfig 1000 \<lparr>Iter = 0, Round = 0\<rparr> = 25000001000
   \<and> expected_arrival 7 DefaultConfig 1000 \<lparr>Iter = 1, Round = 3\<rparr> = 133000001000
   \<and> fst (Handler 7 d0 h1 w0 [10, 0, 0]) = Some ZeroGrade"
  using Handler_expected_arrival [where rpi = 7 and d = d0 and h = h1 and w = w0
      and buf = "[10, 0, 1]" and ir = "\<lparr>Iter = 0, Round = 0\<rparr>" and cfg = DefaultConfig and ?t0.0 = 1000]
    Handler_expected_arrival [where rpi = 7 and d = d0 and h = h1 and w = w0
      and buf = "[10, 0, 0]" and ir = "\<lparr>Iter = 1, Round = 3\<rparr>" and cfg = DefaultConfig and ?t0.0 = 1000]
  by (simp add: Handler_def d0_def h1_def h0_def m0_def w0_def Let_def register_equivocation_def
      proof0_def expected_arrival_def roundStart_def Absolute_def DefaultConfig_def Second_def
      split: prod.splits)

theorem expected_arrival_preround_counterexample:
  "Absolute 7 \<lparr>Iter = 0, Round = preround\<rparr> = 0
   \<and> expected_arrival 7 DefaultConfig 0 \<lparr>Iter = 0, Round = preround\<rparr>
       \<noteq> 0 + sint (PreroundDelay DefaultConfig)
           + (int (Absolute 7 \<lparr>Iter = 0, Round = preround\<rparr>) - 1) * sint (RoundDuration DefaultConfig)
   \<and> expected_arrival 7 (DefaultConfig\<lparr>RoundDuration := 4611686018427387904\<rparr>) 0
         \<lparr>Iter = 4, Round = 1\<rparr>
       \<noteq> 0 + sint (PreroundDelay (DefaultConfig\<lparr>RoundDuration := 4611686018427387904\<rparr>))
           + (int (Absolute 7 \<lparr>Iter = 4, Round = 1\<rparr>) - 1)
             * sint (RoundDuration (DefaultConfig\<lparr>RoundDuration := 4611686018427387904\<rparr>))
   \<and> Handler 7 (d0\<lparr>Now := 1000000000000\<rparr>) h1 w0 [10, 0, 1]
       = (None, \<lparr>atx_malicious = [5], identities = [(5, proof0)]\<rparr>,
          [CallDecode, CallValidate, CallLookup 10, CallVerify, CallIsMalicious 5,
           CallOracleValidate, CallOnInput, CallDbSetMalicious 5 proof0, CallAtxSetMalicious 5,
           ReportMessageLatency 951000000000])
   \<and> 2 * sint (RoundDuration (config h1)) < 951000000000"
  by (simp add: Handler_def d0_def h1_def h0_def m0_def w0_def Let_def register_equivocation_def
      proof0_def expected_arrival_def roundStart_def Absolute_def preround_def DefaultConfig_def
      Second_def)

section \<open>The initial proposal set\<close>

lemma fold_count_atxs:
  "fold (\<lambda>p atxs. atxs(AtxID p := atxs (AtxID p) + 1)) ps m a
     = m a + length (filter (\<lambda>p. AtxID p = a) ps)"
  by (induction ps arbitrary: m) auto

lemma count_atxs_eq: "count_atxs ps a = length (filter (\<lambda>p. AtxID p = a) ps)"
  unfolding count_atxs_def fold_count_atxs by simp

lemma count_atxs_member:
  assumes "p \<in> set ps" and "\<not> 1 < count_atxs ps (AtxID p)"
  shows "length (filter (\<lambda>q. AtxID q = AtxID p) ps) = 1"
proof -
  have "p \<in> set (filter (\<lambda>q. AtxID q = AtxID p) ps)"
    using assms(1) by simp
  then have pos: "0 < length (filter (\<lambda>q. AtxID q = AtxID p) ps)"
    by (rule length_pos_if_in_set)
  have "\<not> 1 < length (filter (\<lambda>q. AtxID q = AtxID p) ps)"
    using assms(2) unfolding count_atxs_eq .
  with pos show ?thesis
    by linarith
qed

lemma min_own_atx_not_found:
  assumes "\<forall>signer \<in> set ss. GetIDByEpochAndNodeID d publish signer = ErrNotFound"
  shows "min_own_atx d target publish ss minp = Some minp"
  using assms by (induction ss arbitrary: minp) simp_all

lemma min_own_atx_lower:
  assumes "min_own_atx d target publish ss minp = Some (Some mn)"
  shows "(\<forall>m0. minp = Some m0 \<longrightarrow> Height mn \<le> Height m0)
       \<and> (\<forall>signer \<in> set ss. \<forall>a own. GetIDByEpochAndNodeID d publish signer = Row a
             \<and> atxsdata_Get d target a = Some own \<longrightarrow> Height mn \<le> Height own)"
  using assms
proof (induction ss arbitrary: minp)
  case Nil
  then show ?case by simp
next
  case (Cons signer rest)
  show ?case
  proof (cases "GetIDByEpochAndNodeID d publish signer")
    case ErrNotFound
    with Cons.prems have "min_own_atx d target publish rest minp = Some (Some mn)"
      by simp
    from Cons.IH [OF this] ErrNotFound show ?thesis
      by auto
  next
    case ErrOther
    with Cons.prems show ?thesis by simp
  next
    case (Row atxid)
    let ?own = "atxsdata_Get d target atxid"
    let ?minp' = "case minp of None \<Rightarrow> ?own
        | Some mn \<Rightarrow> (case ?own of None \<Rightarrow> minp
            | Some ow \<Rightarrow> if Height ow < Height mn then ?own else minp)"
    from Cons.prems Row have "min_own_atx d target publish rest ?minp' = Some (Some mn)"
      by (simp add: Let_def)
    from Cons.IH [OF this]
    have ih: "\<forall>m0. ?minp' = Some m0 \<longrightarrow> Height mn \<le> Height m0"
      and rest: "\<forall>signer \<in> set rest. \<forall>a own. GetIDByEpochAndNodeID d publish signer = Row a
             \<and> atxsdata_Get d target a = Some own \<longrightarrow> Height mn \<le> Height own"
      by blast+
    have a: "Height mn \<le> Height m0" if "minp = Some m0" for m0
      using ih that by (cases ?own) (auto split: if_splits)
    have b: "Height mn \<le> Height own" if "?own = Some own" for own
      using ih that by (cases minp) (auto split: if_splits)
    from a b rest Row show ?thesis
      by auto
  qed
qed

lemma min_own_atx_attained:
  assumes "min_own_atx d target publish ss minp = Some (Some mn)"
  shows "minp = Some mn
       \<or> (\<exists>signer \<in> set ss. \<exists>a. GetIDByEpochAndNodeID d publish signer = Row a
             \<and> atxsdata_Get d target a = Some mn)"
  using assms
proof (induction ss arbitrary: minp)
  case Nil
  then show ?case by simp
next
  case (Cons signer rest)
  show ?case
  proof (cases "GetIDByEpochAndNodeID d publish signer")
    case ErrNotFound
    with Cons.prems have "min_own_atx d target publish rest minp = Some (Some mn)"
      by simp
    from Cons.IH [OF this] show ?thesis
      by auto
  next
    case ErrOther
    with Cons.prems show ?thesis by simp
  next
    case (Row atxid)
    let ?own = "atxsdata_Get d target atxid"
    let ?minp' = "case minp of None \<Rightarrow> ?own
        | Some mn \<Rightarrow> (case ?own of None \<Rightarrow> minp
            | Some ow \<Rightarrow> if Height ow < Height mn then ?own else minp)"
    from Cons.prems Row have "min_own_atx d target publish rest ?minp' = Some (Some mn)"
      by (simp add: Let_def)
    from Cons.IH [OF this]
    consider "?minp' = Some mn"
      | "\<exists>signer \<in> set rest. \<exists>a. GetIDByEpochAndNodeID d publish signer = Row a
             \<and> atxsdata_Get d target a = Some mn"
      by blast
    then show ?thesis
    proof cases
      case 1
      then have "minp = Some mn \<or> ?own = Some mn"
        by (auto split: option.splits if_splits)
      with Row show ?thesis
        by auto
    next
      case 2
      then show ?thesis
        by auto
    qed
  qed
qed

lemma vote_candidates_sound:
  assumes "pid \<in> set (vote_candidates d target b minp atxs ps res)"
  shows "pid \<in> set res
       \<or> (\<exists>p \<in> set ps. ID p = pid \<and> \<not> IsMalicious d (SmesherID p) \<and> \<not> p_malicious p
            \<and> \<not> 1 < atxs (AtxID p) \<and> p_Beacon p = b
            \<and> (\<exists>header. atxsdata_Get d target (AtxID p) = Some header
                  \<and> BaseHeight header < Height minp))"
  using assms
proof (induction ps arbitrary: res)
  case Nil
  then show ?case by simp
next
  case (Cons p ps)
  show ?case
  proof (cases "IsMalicious d (SmesherID p) \<or> p_malicious p \<or> 1 < atxs (AtxID p)")
    case True
    then have "vote_candidates d target b minp atxs (p # ps) res
        = vote_candidates d target b minp atxs ps res"
      by auto
    with Cons.prems have "pid \<in> set (vote_candidates d target b minp atxs ps res)"
      by (simp only:)
    from Cons.IH [OF this] show ?thesis
      by auto
  next
    case False
    note ok = this
    show ?thesis
    proof (cases "atxsdata_Get d target (AtxID p)")
      case None
      with ok Cons.prems show ?thesis by simp
    next
      case (Some header)
      show ?thesis
      proof (cases "\<not> Height minp \<le> BaseHeight header \<and> p_Beacon p = b")
        case True
        with ok Some
        have "vote_candidates d target b minp atxs (p # ps) res
            = vote_candidates d target b minp atxs ps (res @ [ID p])"
          by simp
        with Cons.prems
        have "pid \<in> set (vote_candidates d target b minp atxs ps (res @ [ID p]))"
          by (simp only:)
        from Cons.IH [OF this] consider "pid \<in> set res" | "pid = ID p"
          | "\<exists>p \<in> set ps. ID p = pid \<and> \<not> IsMalicious d (SmesherID p) \<and> \<not> p_malicious p
            \<and> \<not> 1 < atxs (AtxID p) \<and> p_Beacon p = b
            \<and> (\<exists>header. atxsdata_Get d target (AtxID p) = Some header
                  \<and> BaseHeight header < Height minp)"
          by auto
        then show ?thesis
        proof cases
          case 1
          then show ?thesis by simp
        next
          case 2
          with ok Some True show ?thesis
            by (auto simp: not_le)
        next
          case 3
          then show ?thesis by auto
        qed
      next
        case False
        with ok Some
        have "vote_candidates d target b minp atxs (p # ps) res
            = vote_candidates d target b minp atxs ps res"
          by auto
        with Cons.prems
        have "pid \<in> set (vote_candidates d target b minp atxs ps res)"
          by (simp only:)
        from Cons.IH [OF this] show ?thesis
          by auto
      qed
    qed
  qed
qed

text \<open>
  C5 (as amended).  Every proposal id that \<open>selectProposals\<close> returns is the id of a
  candidate the proposal store lists for the layer, such that: its smesher is not flagged
  malicious and the proposal is not malicious; its ATX id occurs once among the layer's
  candidates; its ATX is loaded and the base height of that ATX is strictly less than the
  height (not the base height) of every ATX of a local signer that is published in the
  prior epoch and loaded, of which there is at least one; and its beacon is the session's.
  If no local signer has an ATX for the prior epoch, the result is empty.
\<close>

theorem selectProposals_sound:
  "(\<forall>pid \<in> set (selectProposals GetEpoch d s).
      \<exists>p \<in> set (GetForLayer d (lid s)).
        ID p = pid
        \<and> \<not> IsMalicious d (SmesherID p) \<and> \<not> p_malicious p
        \<and> length (filter (\<lambda>q. AtxID q = AtxID p) (GetForLayer d (lid s))) = 1
        \<and> p_Beacon p = beacon s
        \<and> (\<exists>header. atxsdata_Get d (GetEpoch (lid s)) (AtxID p) = Some header
              \<and> (\<exists>signer \<in> set (signers s). \<exists>a own.
                    GetIDByEpochAndNodeID d (GetEpoch (lid s) - 1) signer = Row a
                    \<and> atxsdata_Get d (GetEpoch (lid s)) a = Some own)
              \<and> (\<forall>signer \<in> set (signers s). \<forall>a own.
                    GetIDByEpochAndNodeID d (GetEpoch (lid s) - 1) signer = Row a
                    \<and> atxsdata_Get d (GetEpoch (lid s)) a = Some own
                    \<longrightarrow> BaseHeight header < Height own)))
   \<and> ((\<forall>signer \<in> set (signers s).
          GetIDByEpochAndNodeID d (GetEpoch (lid s) - 1) signer = ErrNotFound)
       \<longrightarrow> selectProposals GetEpoch d s = [])"
proof (intro conjI ballI impI)
  fix pid
  assume pid: "pid \<in> set (selectProposals GetEpoch d s)"
  let ?target = "GetEpoch (lid s)"
  let ?cands = "GetForLayer d (lid s)"
  from pid obtain minp where
    mn: "min_own_atx d ?target (?target - 1) (signers s) None = Some (Some minp)"
    and res: "pid \<in> set (vote_candidates d ?target (beacon s) minp (count_atxs ?cands) ?cands [])"
    by (cases "min_own_atx d ?target (?target - 1) (signers s) None")
      (auto simp: selectProposals_def Let_def split: option.splits)
  from vote_candidates_sound [OF res] obtain p header where
    p: "p \<in> set ?cands" "ID p = pid" "\<not> IsMalicious d (SmesherID p)" "\<not> p_malicious p"
      "\<not> 1 < count_atxs ?cands (AtxID p)" "p_Beacon p = beacon s"
      "atxsdata_Get d ?target (AtxID p) = Some header" "BaseHeight header < Height minp"
    by auto
  have once: "length (filter (\<lambda>q. AtxID q = AtxID p) ?cands) = 1"
    using p(1,5) by (rule count_atxs_member)
  have some: "\<exists>signer \<in> set (signers s). \<exists>a own.
        GetIDByEpochAndNodeID d (?target - 1) signer = Row a \<and> atxsdata_Get d ?target a = Some own"
    using min_own_atx_attained [OF mn] by auto
  have low: "\<forall>signer \<in> set (signers s). \<forall>a own.
        GetIDByEpochAndNodeID d (?target - 1) signer = Row a \<and> atxsdata_Get d ?target a = Some own
        \<longrightarrow> BaseHeight header < Height own"
    using min_own_atx_lower [OF mn] p(8) by (meson order_less_le_trans)
  from p(1-4,6,7) once some low
  show "\<exists>p \<in> set ?cands.
        ID p = pid
        \<and> \<not> IsMalicious d (SmesherID p) \<and> \<not> p_malicious p
        \<and> length (filter (\<lambda>q. AtxID q = AtxID p) ?cands) = 1
        \<and> p_Beacon p = beacon s
        \<and> (\<exists>header. atxsdata_Get d ?target (AtxID p) = Some header
              \<and> (\<exists>signer \<in> set (signers s). \<exists>a own.
                    GetIDByEpochAndNodeID d (?target - 1) signer = Row a
                    \<and> atxsdata_Get d ?target a = Some own)
              \<and> (\<forall>signer \<in> set (signers s). \<forall>a own.
                    GetIDByEpochAndNodeID d (?target - 1) signer = Row a
                    \<and> atxsdata_Get d ?target a = Some own
                    \<longrightarrow> BaseHeight header < Height own))"
    by blast
next
  assume "\<forall>signer \<in> set (signers s).
      GetIDByEpochAndNodeID d (GetEpoch (lid s) - 1) signer = ErrNotFound"
  then have "min_own_atx d (GetEpoch (lid s)) (GetEpoch (lid s) - 1) (signers s) None
      = Some None"
    by (rule min_own_atx_not_found)
  then show "selectProposals GetEpoch d s = []"
    by (simp add: selectProposals_def Let_def)
qed

theorem selectProposals_sound_witness:
  "selectProposals epoch4 sd0 s0 = [7]
   \<and> selectProposals epoch4 sd0 (s0\<lparr>signers := [3]\<rparr>) = []"
  using selectProposals_sound [where GetEpoch = epoch4 and d = sd0 and s = s0]
    selectProposals_sound [where GetEpoch = epoch4 and d = sd0 and s = "s0\<lparr>signers := [3]\<rparr>"]
  by (simp add: selectProposals_def sd0_def s0_def p7_def epoch4_def count_atxs_def Let_def)

theorem selectProposals_base_height_counterexample:
  "selectProposals epoch4 sd0 s0 = [7]
   \<and> GetForLayer sd0 (lid s0) = [p7] \<and> ID p7 = 7
   \<and> atxsdata_Get sd0 (epoch4 (lid s0)) (AtxID p7) = Some \<lparr>BaseHeight = 15, Height = 30\<rparr>
   \<and> signers s0 = [1]
   \<and> GetIDByEpochAndNodeID sd0 (epoch4 (lid s0) - 1) 1 = Row 100
   \<and> atxsdata_Get sd0 (epoch4 (lid s0)) 100 = Some \<lparr>BaseHeight = 10, Height = 20\<rparr>
   \<and> \<not> BaseHeight \<lparr>BaseHeight = 15, Height = 30\<rparr> < BaseHeight \<lparr>BaseHeight = 10, Height = 20\<rparr>"
  by (simp add: selectProposals_def sd0_def s0_def p7_def epoch4_def count_atxs_def Let_def)

section \<open>Round outputs\<close>

lemma publish_all_Publish_ok:
  "fst (publish_all (d\<lparr>Publish_ok := f\<rparr>) s m i vs) = fst (publish_all d s m i vs)
   \<and> filter (\<lambda>e. \<not> is_log e) (snd (publish_all (d\<lparr>Publish_ok := f\<rparr>) s m i vs))
       = filter (\<lambda>e. \<not> is_log e) (snd (publish_all d s m i vs))"
proof (induction vs arbitrary: i)
  case Nil
  show ?case by simp
next
  case (Cons vrf rest)
  show ?case
  proof (cases vrf)
    case None
    with Cons.IH [of "i + 1"] show ?thesis by simp
  next
    case (Some v)
    show ?thesis
    proof (cases m)
      case None
      with Some Cons.IH [of "i + 1"] show ?thesis by simp
    next
      case (Some template)
      with \<open>vrf = Some v\<close> Cons.IH [of "i + 1"] show ?thesis
        by (simp add: Let_def split_beta)
    qed
  qed
qed

lemma publish_all_ok:
  "i + length vs \<le> length (signers s) \<Longrightarrow> fst (publish_all d s m i vs)"
proof (induction vs arbitrary: i)
  case Nil
  show ?case by simp
next
  case (Cons vrf rest)
  from Cons.prems have "fst (publish_all d s m (i + 1) rest)"
    by (intro Cons.IH) simp
  with Cons.prems show ?case
    by (cases vrf; cases m) (simp_all add: Let_def split_beta)
qed

lemma publish_all_complete:
  assumes "j < length vs" and "vs ! j = Some v" and "m = Some template"
    and "i + length vs \<le> length (signers s)"
  shows "\<exists>signed. Published (i + j) signed \<in> set (snd (publish_all d s m i vs))
              \<and> Sender signed = signers s ! (i + j)"
  using assms
proof (induction vs arbitrary: i j)
  case Nil
  then show ?case by simp
next
  case (Cons vrf rest)
  show ?case
  proof (cases j)
    case 0
    with Cons.prems show ?thesis
      by (auto simp: Let_def split_beta)
  next
    case (Suc k)
    with Cons.prems have "\<exists>signed. Published (i + 1 + k) signed
          \<in> set (snd (publish_all d s m (i + 1) rest))
        \<and> Sender signed = signers s ! (i + 1 + k)"
      by (intro Cons.IH) simp_all
    then obtain signed where
      "Published (i + j) signed \<in> set (snd (publish_all d s m (i + 1) rest))"
      "Sender signed = signers s ! (i + j)"
      using Suc by auto
    with Cons.prems(3,4) show ?thesis
      by (cases vrf) (auto simp: Let_def split_beta)
  qed
qed


lemma send_result_cases:
  "send_result d s out =
     (case result out of
        None \<Rightarrow> (Returns None, [])
      | Some r \<Rightarrow>
          if result_select d = CtxDone then (Returns (Some CtxCanceled), [TookCtxDone AtResult])
          else if result_select d = Never then (Blocked, [])
          else (Returns None, [ResultSent (lid s) r]))"
  by (cases "result_select d") (simp_all add: send_result_def split: option.splits)

lemma send_coin_cases:
  "send_coin d s out =
     (case coin out of
        None \<Rightarrow> send_result d s out
      | Some c \<Rightarrow>
          if coin_select d = CtxDone then (Returns (Some CtxCanceled), [TookCtxDone AtCoin])
          else if coin_select d = Never then (Blocked, [])
          else (fst (send_result d s out), CoinSent (lid s) c # snd (send_result d s out)))"
  by (cases "coin_select d") (simp_all add: send_coin_def split_beta split: option.splits)

lemma send_result_Publish_ok: "send_result (d\<lparr>Publish_ok := f\<rparr>) s out = send_result d s out"
  by (simp add: send_result_cases split: option.splits)

lemma send_coin_Publish_ok: "send_coin (d\<lparr>Publish_ok := f\<rparr>) s out = send_coin d s out"
  by (simp add: send_coin_cases send_result_Publish_ok split: option.splits)

lemma send_coin_no_log: "filter (\<lambda>e. \<not> is_log e) (snd (send_coin d s out)) = snd (send_coin d s out)"
  by (simp add: send_coin_cases send_result_cases split: option.splits)

lemma send_coin_error:
  assumes "fst (send_coin d s out) = Returns (Some e)"
  shows "e = CtxCanceled \<and> ((coin out \<noteq> None \<and> coin_select d = CtxDone)
            \<or> (result out \<noteq> None \<and> result_select d = CtxDone))"
  using assms by (auto simp: send_coin_cases send_result_cases split: option.splits if_splits)

lemma onOutput_unfold:
  "onOutput d s ir out =
     (if \<not> fst (publish_all d s (message out) 0 (vrfs s))
      then (Panics, snd (publish_all d s (message out) 0 (vrfs s)))
      else (fst (send_coin d s out),
            snd (publish_all d s (message out) 0 (vrfs s)) @ [OnMessageSent (message out)]
              @ snd (send_coin d s out)))"
  by (simp add: onOutput_def split_beta)

lemma publish_all_enumerate:
  assumes "i + length vs \<le> length (signers s)"
  shows "snd (publish_all d s m i vs)
       = concat (map (\<lambda>(i, vrf).
           case vrf of
             None \<Rightarrow> []
           | Some v \<Rightarrow>
               (case m of
                  None \<Rightarrow> []
                | Some template \<Rightarrow>
                    let unsigned = template\<lparr>m_Layer := lid s, Eligibility := v,
                                            Sender := signers s ! i\<rparr>;
                        signed = unsigned\<lparr>Signature := Sign d (signers s ! i) unsigned\<rparr>
                    in Published i signed
                         # (if Publish_ok d i signed then [] else [LogPublishFailed i])))
         (List.enumerate i vs))"
  using assms
proof (induction vs arbitrary: i)
  case Nil
  show ?case by simp
next
  case (Cons vrf rest)
  from Cons.prems have "Suc i + length rest \<le> length (signers s)"
    by simp
  from Cons.IH [OF this] Cons.prems show ?case
    by (cases vrf; cases m) (simp_all add: Let_def split_beta)
qed

lemma publish_all_logged:
  assumes "length vs \<le> length (signers s)"
  shows "LogPublishFailed i \<in> set (snd (publish_all d s m 0 vs)) \<longleftrightarrow>
       i < length vs
       \<and> (\<exists>v template. vs ! i = Some v \<and> m = Some template
             \<and> \<not> Publish_ok d i
                   (template\<lparr>m_Layer := lid s, Eligibility := v, Sender := signers s ! i,
                      Signature := Sign d (signers s ! i)
                        (template\<lparr>m_Layer := lid s, Eligibility := v,
                                   Sender := signers s ! i\<rparr>)\<rparr>))"
proof -
  let ?P = "\<lambda>(i, vrf).
           case vrf of
             None \<Rightarrow> []
           | Some v \<Rightarrow>
               (case m of
                  None \<Rightarrow> []
                | Some template \<Rightarrow>
                    let unsigned = template\<lparr>m_Layer := lid s, Eligibility := v,
                                            Sender := signers s ! i\<rparr>;
                        signed = unsigned\<lparr>Signature := Sign d (signers s ! i) unsigned\<rparr>
                    in Published i signed
                         # (if Publish_ok d i signed then [] else [LogPublishFailed i]))"
  from assms have "0 + length vs \<le> length (signers s)"
    by simp
  from publish_all_enumerate [OF this, of d m]
  have tr: "snd (publish_all d s m 0 vs) = concat (map ?P (List.enumerate 0 vs))" .
  show ?thesis
  proof
    assume "LogPublishFailed i \<in> set (snd (publish_all d s m 0 vs))"
    then obtain j vrf where mem: "(j, vrf) \<in> set (List.enumerate 0 vs)"
      and lg: "LogPublishFailed i \<in> set (?P (j, vrf))"
      unfolding tr by auto
    from mem have j: "j < length vs" "vs ! j = vrf"
      by (simp_all add: in_set_enumerate_eq)
    from lg obtain v template where "vrf = Some v" "m = Some template" "j = i"
      "\<not> Publish_ok d i
            (template\<lparr>m_Layer := lid s, Eligibility := v, Sender := signers s ! i,
               Signature := Sign d (signers s ! i)
                 (template\<lparr>m_Layer := lid s, Eligibility := v, Sender := signers s ! i\<rparr>)\<rparr>)"
      by (cases vrf; cases m) (auto simp: Let_def split: if_splits)
    with j show "i < length vs
       \<and> (\<exists>v template. vs ! i = Some v \<and> m = Some template
             \<and> \<not> Publish_ok d i
                   (template\<lparr>m_Layer := lid s, Eligibility := v, Sender := signers s ! i,
                      Signature := Sign d (signers s ! i)
                        (template\<lparr>m_Layer := lid s, Eligibility := v,
                                   Sender := signers s ! i\<rparr>)\<rparr>))"
      by auto
  next
    assume "i < length vs
       \<and> (\<exists>v template. vs ! i = Some v \<and> m = Some template
             \<and> \<not> Publish_ok d i
                   (template\<lparr>m_Layer := lid s, Eligibility := v, Sender := signers s ! i,
                      Signature := Sign d (signers s ! i)
                        (template\<lparr>m_Layer := lid s, Eligibility := v,
                                   Sender := signers s ! i\<rparr>)\<rparr>))"
    then obtain v template where i: "i < length vs" "vs ! i = Some v" "m = Some template"
      "\<not> Publish_ok d i
            (template\<lparr>m_Layer := lid s, Eligibility := v, Sender := signers s ! i,
               Signature := Sign d (signers s ! i)
                 (template\<lparr>m_Layer := lid s, Eligibility := v, Sender := signers s ! i\<rparr>)\<rparr>)"
      by auto
    from i(1,2) have mem: "(i, Some v) \<in> set (List.enumerate 0 vs)"
      by (simp add: in_set_enumerate_eq)
    from i(3,4) have "LogPublishFailed i \<in> set (?P (i, Some v))"
      by (simp add: Let_def)
    with mem show "LogPublishFailed i \<in> set (snd (publish_all d s m 0 vs))"
      unfolding tr set_concat set_map by blast
  qed
qed

lemma send_coin_not_log: "LogPublishFailed i \<notin> set (snd (send_coin d s out))"
  by (auto simp: send_coin_cases send_result_cases split: option.splits if_splits)

text \<open>
  C9.  \<open>onOutput\<close> returns an error only when one of its two \<open>select\<close>s took the branch of
  the cancelled context, and the error is the context's.  Whether a \<open>Publish\<close> fails
  changes neither what \<open>onOutput\<close> returns nor what it does apart from logging: every
  eligible signer still publishes, and the coin and the result are still sent on their
  channels when their \<open>select\<close> takes the send.  The failure of a signer's \<open>Publish\<close>
  is logged, and nothing else is: the error of signer \<open>i\<close> is logged exactly when \<open>i\<close> is
  eligible, there is a message to send, and the \<open>Publish\<close> of the message signed by \<open>i\<close>
  fails.  Up to the call of the tracer the trace is, for each eligible signer in the
  order of \<open>session.vrfs\<close>, its publish followed by the log of its failure if it failed.
\<close>

theorem onOutput_tolerates_publish_failure:
  "(\<forall>e. fst (onOutput d s ir out) = Returns (Some e)
        \<longrightarrow> e = CtxCanceled
            \<and> ((coin out \<noteq> None \<and> coin_select d = CtxDone)
                \<or> (result out \<noteq> None \<and> result_select d = CtxDone)))
   \<and> fst (onOutput (d\<lparr>Publish_ok := f\<rparr>) s ir out) = fst (onOutput d s ir out)
   \<and> filter (\<lambda>e. \<not> is_log e) (snd (onOutput (d\<lparr>Publish_ok := f\<rparr>) s ir out))
       = filter (\<lambda>e. \<not> is_log e) (snd (onOutput d s ir out))
   \<and> (\<forall>i v template. i < length (vrfs s) \<and> length (vrfs s) \<le> length (signers s)
          \<and> vrfs s ! i = Some v \<and> message out = Some template
        \<longrightarrow> (\<exists>signed. Published i signed \<in> set (snd (onOutput d s ir out))
               \<and> Sender signed = signers s ! i))
   \<and> (\<forall>c. length (vrfs s) \<le> length (signers s) \<and> coin out = Some c \<and> coin_select d = Ready
        \<longrightarrow> CoinSent (lid s) c \<in> set (snd (onOutput d s ir out)))
   \<and> (\<forall>r. length (vrfs s) \<le> length (signers s) \<and> result out = Some r
          \<and> result_select d = Ready \<and> (coin out = None \<or> coin_select d = Ready)
        \<longrightarrow> ResultSent (lid s) r \<in> set (snd (onOutput d s ir out)))
   \<and> (\<forall>i. length (vrfs s) \<le> length (signers s)
        \<longrightarrow> (LogPublishFailed i \<in> set (snd (onOutput d s ir out)) \<longleftrightarrow>
               i < length (vrfs s)
               \<and> (\<exists>v template. vrfs s ! i = Some v \<and> message out = Some template
                     \<and> \<not> Publish_ok d i
                           (template\<lparr>m_Layer := lid s, Eligibility := v,
                              Sender := signers s ! i,
                              Signature := Sign d (signers s ! i)
                                (template\<lparr>m_Layer := lid s, Eligibility := v,
                                           Sender := signers s ! i\<rparr>)\<rparr>))))
   \<and> (length (vrfs s) \<le> length (signers s)
        \<longrightarrow> (\<exists>rest. (\<forall>e \<in> set rest. \<not> is_log e)
               \<and> snd (onOutput d s ir out)
                   = concat (map (\<lambda>(i, vrf).
                       case vrf of
                         None \<Rightarrow> []
                       | Some v \<Rightarrow>
                           (case message out of
                              None \<Rightarrow> []
                            | Some template \<Rightarrow>
                                let unsigned = template\<lparr>m_Layer := lid s, Eligibility := v,
                                                        Sender := signers s ! i\<rparr>;
                                    signed = unsigned\<lparr>Signature :=
                                                        Sign d (signers s ! i) unsigned\<rparr>
                                in Published i signed
                                     # (if Publish_ok d i signed then []
                                        else [LogPublishFailed i])))
                     (List.enumerate 0 (vrfs s)))
                     @ OnMessageSent (message out) # rest))"
proof -
  let ?pubs = "publish_all d s (message out) 0 (vrfs s)"
  have err: "e = CtxCanceled
            \<and> ((coin out \<noteq> None \<and> coin_select d = CtxDone)
                \<or> (result out \<noteq> None \<and> result_select d = CtxDone))"
    if "fst (onOutput d s ir out) = Returns (Some e)" for e
  proof -
    from that have "fst (send_coin d s out) = Returns (Some e)"
      by (simp add: onOutput_unfold split: if_splits)
    then show ?thesis
      by (rule send_coin_error)
  qed
  note pf = publish_all_Publish_ok [where d = d and f = f and s = s and m = "message out"
      and i = 0 and vs = "vrfs s"]
  have same: "fst (onOutput (d\<lparr>Publish_ok := f\<rparr>) s ir out) = fst (onOutput d s ir out)"
    using pf by (simp add: onOutput_unfold send_coin_Publish_ok)
  have trace: "filter (\<lambda>e. \<not> is_log e) (snd (onOutput (d\<lparr>Publish_ok := f\<rparr>) s ir out))
       = filter (\<lambda>e. \<not> is_log e) (snd (onOutput d s ir out))"
    using pf by (simp add: onOutput_unfold send_coin_Publish_ok)
  have ok: "fst ?pubs" if "length (vrfs s) \<le> length (signers s)"
    using that by (intro publish_all_ok) simp
  have pub: "\<exists>signed. Published i signed \<in> set (snd (onOutput d s ir out))
               \<and> Sender signed = signers s ! i"
    if "i < length (vrfs s) \<and> length (vrfs s) \<le> length (signers s)
          \<and> vrfs s ! i = Some v \<and> message out = Some template" for i v template
  proof -
    from that publish_all_complete [of i "vrfs s" v "message out" template 0 s d]
    obtain signed where "Published i signed \<in> set (snd ?pubs)"
      "Sender signed = signers s ! i"
      by auto
    with that ok show ?thesis
      by (auto simp: onOutput_unfold)
  qed
  have cn: "CoinSent (lid s) c \<in> set (snd (onOutput d s ir out))"
    if "length (vrfs s) \<le> length (signers s) \<and> coin out = Some c \<and> coin_select d = Ready" for c
    using that ok by (simp add: onOutput_unfold send_coin_cases)
  have rs: "ResultSent (lid s) r \<in> set (snd (onOutput d s ir out))"
    if "length (vrfs s) \<le> length (signers s) \<and> result out = Some r
          \<and> result_select d = Ready \<and> (coin out = None \<or> coin_select d = Ready)" for r
    using that ok by (auto simp: onOutput_unfold send_coin_cases send_result_cases split: option.splits)
  have lg: "LogPublishFailed i \<in> set (snd (onOutput d s ir out)) \<longleftrightarrow>
               i < length (vrfs s)
               \<and> (\<exists>v template. vrfs s ! i = Some v \<and> message out = Some template
                     \<and> \<not> Publish_ok d i
                           (template\<lparr>m_Layer := lid s, Eligibility := v,
                              Sender := signers s ! i,
                              Signature := Sign d (signers s ! i)
                                (template\<lparr>m_Layer := lid s, Eligibility := v,
                                           Sender := signers s ! i\<rparr>)\<rparr>))"
    if len: "length (vrfs s) \<le> length (signers s)" for i
  proof -
    have "LogPublishFailed i \<in> set (snd (onOutput d s ir out))
        \<longleftrightarrow> LogPublishFailed i \<in> set (snd ?pubs)"
      using ok [OF len] send_coin_not_log [of i d s out] by (auto simp: onOutput_unfold)
    then show ?thesis
      unfolding publish_all_logged [OF len] .
  qed
  have ex: "\<exists>rest. (\<forall>e \<in> set rest. \<not> is_log e)
               \<and> snd (onOutput d s ir out)
                   = concat (map (\<lambda>(i, vrf).
                       case vrf of
                         None \<Rightarrow> []
                       | Some v \<Rightarrow>
                           (case message out of
                              None \<Rightarrow> []
                            | Some template \<Rightarrow>
                                let unsigned = template\<lparr>m_Layer := lid s, Eligibility := v,
                                                        Sender := signers s ! i\<rparr>;
                                    signed = unsigned\<lparr>Signature :=
                                                        Sign d (signers s ! i) unsigned\<rparr>
                                in Published i signed
                                     # (if Publish_ok d i signed then []
                                        else [LogPublishFailed i])))
                     (List.enumerate 0 (vrfs s)))
                     @ OnMessageSent (message out) # rest"
    if len: "length (vrfs s) \<le> length (signers s)"
  proof -
    from len have "0 + length (vrfs s) \<le> length (signers s)"
      by simp
    note tr = publish_all_enumerate [OF this, of d "message out"]
    have nl: "\<forall>e \<in> set (snd (send_coin d s out)). \<not> is_log e"
      using send_coin_no_log [of d s out] by (metis filter_id_conv)
    have "snd (onOutput d s ir out)
        = snd ?pubs @ OnMessageSent (message out) # snd (send_coin d s out)"
      using ok [OF len] by (simp add: onOutput_unfold)
    with nl show ?thesis
      unfolding tr by blast
  qed
  from err same trace pub cn rs lg ex show ?thesis
    by blast
qed

theorem onOutput_tolerates_publish_failure_witness:
  "onOutput (od0\<lparr>Publish_ok := \<lambda>i m. i = 0\<rparr>)
      (s0\<lparr>signers := [1, 2], vrfs := [Some \<lparr>Proof = 1, Count = 2\<rparr>, Some \<lparr>Proof = 3, Count = 1\<rparr>]\<rparr>)
      \<lparr>Iter = 0, Round = 3\<rparr>
      \<lparr>message = Some m0, coin = Some True, result = Some [7], terminated = False\<rparr>
     = (Returns None,
        [Published 0 (m0\<lparr>Eligibility := \<lparr>Proof = 1, Count = 2\<rparr>, Sender := 1\<rparr>),
         Published 1 (m0\<lparr>Eligibility := \<lparr>Proof = 3, Count = 1\<rparr>, Sender := 2\<rparr>),
         LogPublishFailed 1, OnMessageSent (Some m0), CoinSent 10 True, ResultSent 10 [7]])
   \<and> fst (onOutput (od0\<lparr>coin_select := CtxDone\<rparr>) (s0\<lparr>vrfs := [Some \<lparr>Proof = 1, Count = 2\<rparr>]\<rparr>)
        \<lparr>Iter = 0, Round = 3\<rparr>
        \<lparr>message = Some m0, coin = Some True, result = Some [7], terminated = False\<rparr>)
      = Returns (Some CtxCanceled)"
  using onOutput_tolerates_publish_failure [where d = "od0\<lparr>Publish_ok := \<lambda>i m. i = 0\<rparr>"
      and s = "s0\<lparr>signers := [1, 2],
                 vrfs := [Some \<lparr>Proof = 1, Count = 2\<rparr>, Some \<lparr>Proof = 3, Count = 1\<rparr>]\<rparr>"
      and ir = "\<lparr>Iter = 0, Round = 3\<rparr>"
      and out = "\<lparr>message = Some m0, coin = Some True, result = Some [7], terminated = False\<rparr>"
      and f = "\<lambda>i m. True"]
    onOutput_tolerates_publish_failure [where d = "od0\<lparr>coin_select := CtxDone\<rparr>"
      and s = "s0\<lparr>vrfs := [Some \<lparr>Proof = 1, Count = 2\<rparr>]\<rparr>" and ir = "\<lparr>Iter = 0, Round = 3\<rparr>"
      and out = "\<lparr>message = Some m0, coin = Some True, result = Some [7], terminated = False\<rparr>"
      and f = "\<lambda>i m. True"]
  by (simp add: onOutput_def send_coin_def send_result_def od0_def s0_def m0_def Let_def)

section \<open>The scheduler loop\<close>




























end
